theory Spec2Isabelle
  imports Complex_Main "HOL-Library.Word"
begin

section \<open>Buffers\<close>

text \<open>
  A Node \<open>Buffer\<close> is a list of bytes. Reads past the end raise a \<open>RangeError\<close>
  in Node; every raise of the client is a left value of the result type here.
  JavaScript numbers that the client treats as integers are \<open>int\<close>; strings are
  \<open>string\<close>, their characters taken to be ASCII (wallet addresses, base58 text and seed
  literals are), so that \<open>TextEncoder.encode\<close> and \<open>toString('utf8')\<close> move one
  character per byte.
\<close>

type_synonym byte = "8 word"
type_synonym Buffer = "byte list"

datatype error =
    UninitializedAccount
  | RangeError
  | NonBase58Character
  | InvalidPublicKeyInput
  | DerivationError

definition andThen :: "error + 'a \<Rightarrow> ('a \<Rightarrow> error + 'b) \<Rightarrow> error + 'b" where
  "andThen m f = (case m of Inl e \<Rightarrow> Inl e | Inr x \<Rightarrow> f x)"

text \<open>\<open>buf.slice(start, end)\<close> for \<open>0 \<le> start \<le> end\<close>: clamped, never raises.\<close>

definition slice :: "Buffer \<Rightarrow> nat \<Rightarrow> nat \<Rightarrow> Buffer" where
  "slice buf start end = take (end - start) (drop start buf)"

definition readInt8 :: "Buffer \<Rightarrow> nat \<Rightarrow> error + int" where
  "readInt8 buf offset =
     (if offset < length buf then Inr (sint (buf ! offset)) else Inl RangeError)"

text \<open>
  Node's \<open>readInt32LE\<close>: \<open>first + b1 * 2 ** 8 + b2 * 2 ** 16 + (last << 24)\<close>, where the
  shift makes the last byte signed.
\<close>

definition readInt32LE :: "Buffer \<Rightarrow> nat \<Rightarrow> error + int" where
  "readInt32LE buf offset =
     (if offset + 4 \<le> length buf
      then Inr (uint (buf ! offset) + uint (buf ! (offset + 1)) * 2 ^ 8
                + uint (buf ! (offset + 2)) * 2 ^ 16
                + sint (buf ! (offset + 3)) * 2 ^ 24)
      else Inl RangeError)"

text \<open>The unsigned little-endian value of \<open>n\<close> bytes at \<open>offset\<close>.\<close>

fun le_value :: "Buffer \<Rightarrow> nat \<Rightarrow> nat \<Rightarrow> int" where
  "le_value buf offset 0 = 0"
| "le_value buf offset (Suc n) = uint (buf ! offset) + 2 ^ 8 * le_value buf (Suc offset) n"

text \<open>
  Node's \<open>readBigInt64LE\<close>: the low four bytes unsigned, the high four bytes read as a
  signed 32-bit value and shifted left by 32.
\<close>

definition readBigInt64LE :: "Buffer \<Rightarrow> nat \<Rightarrow> error + int" where
  "readBigInt64LE buf offset =
     (if offset + 8 \<le> length buf
      then Inr (le_value buf offset 4
                + 2 ^ 32 * (le_value buf (offset + 4) 3 + sint (buf ! (offset + 7)) * 2 ^ 24))
      else Inl RangeError)"

text \<open>
  \<open>readDoubleLE\<close> and \<open>readFloatLE\<close> return IEEE-754 numbers. They are kept as the
  bit pattern read (an unsigned integer of 64 or 32 bits).
\<close>

definition readDoubleLE :: "Buffer \<Rightarrow> nat \<Rightarrow> error + int" where
  "readDoubleLE buf offset =
     (if offset + 8 \<le> length buf then Inr (le_value buf offset 8) else Inl RangeError)"

definition readFloatLE :: "Buffer \<Rightarrow> nat \<Rightarrow> error + int" where
  "readFloatLE buf offset =
     (if offset + 4 \<le> length buf then Inr (le_value buf offset 4) else Inl RangeError)"

text \<open>
  \<open>Buffer.allocUnsafe(n)\<close>: \<open>n\<close> bytes of whatever the allocator held, given here as
  the argument \<open>junk\<close>.
\<close>

definition allocUnsafe :: "nat \<Rightarrow> Buffer \<Rightarrow> Buffer" where
  "allocUnsafe n junk = take n junk @ replicate (n - length junk) 0"

text \<open>
  Node's \<open>writeInt8\<close> and \<open>writeInt32LE\<close>: the value is checked against the signed
  range, then stored byte by byte (\<open>buf[offset++] = value; value = value >>> 8\<close>).
\<close>

definition writeInt8 :: "Buffer \<Rightarrow> int \<Rightarrow> nat \<Rightarrow> error + Buffer" where
  "writeInt8 buf v offset =
     (if v < - (2 ^ 7) \<or> 2 ^ 7 \<le> v then Inl RangeError
      else if length buf < offset + 1 then Inl RangeError
      else Inr (buf[offset := word_of_int v]))"

definition writeInt32LE :: "Buffer \<Rightarrow> int \<Rightarrow> nat \<Rightarrow> error + Buffer" where
  "writeInt32LE buf v offset =
     (if v < - (2 ^ 31) \<or> 2 ^ 31 \<le> v then Inl RangeError
      else if length buf < offset + 4 then Inl RangeError
      else Inr (buf[offset := word_of_int v,
                    offset + 1 := word_of_int (v mod 2 ^ 32 div 2 ^ 8),
                    offset + 2 := word_of_int (v mod 2 ^ 32 div 2 ^ 16),
                    offset + 3 := word_of_int (v mod 2 ^ 32 div 2 ^ 24)]))"

text \<open>\<open>new TextEncoder().encode(s)\<close>, \<open>Buffer.from(s)\<close> and \<open>buf.toString('utf8', start)\<close>.\<close>

definition encode_utf8 :: "string \<Rightarrow> Buffer" where
  "encode_utf8 s = map (\<lambda>c. of_nat (of_char c)) s"

definition toString_utf8 :: "Buffer \<Rightarrow> nat \<Rightarrow> string" where
  "toString_utf8 buf start = map (\<lambda>b. char_of (unat b)) (drop start buf)"

section \<open>Base58 and public keys\<close>

definition b58_alphabet :: string where
  "b58_alphabet = ''123456789ABCDEFGHJKLMNPQRSTUVWXYZabcdefghijkmnopqrstuvwxyz''"

fun index_of :: "'a \<Rightarrow> 'a list \<Rightarrow> nat option" where
  "index_of c [] = None"
| "index_of c (x # xs) = (if c = x then Some 0 else map_option Suc (index_of c xs))"

fun digits_be :: "nat \<Rightarrow> nat \<Rightarrow> nat list" where
  "digits_be b n = (if n = 0 \<or> b < 2 then [] else digits_be b (n div b) @ [n mod b])"

definition value_be :: "nat \<Rightarrow> nat list \<Rightarrow> nat" where
  "value_be b ds = foldl (\<lambda>a d. a * b + d) 0 ds"

text \<open>
  \<open>bs58.encode\<close>: one \<open>1\<close> per leading zero byte, then the base-58 digits of the
  big-endian number. \<open>bs58.decode\<close> is its inverse and raises on a character outside
  the alphabet.
\<close>

definition bs58_encode :: "Buffer \<Rightarrow> string" where
  "bs58_encode bs =
     replicate (length (takeWhile (\<lambda>x. x = 0) bs)) (CHR ''1'')
     @ map (\<lambda>d. b58_alphabet ! d) (digits_be 58 (value_be 256 (map unat bs)))"

definition bs58_decode :: "string \<Rightarrow> error + Buffer" where
  "bs58_decode s =
     (case those (map (\<lambda>c. index_of c b58_alphabet) s) of
        None \<Rightarrow> Inl NonBase58Character
      | Some ds \<Rightarrow>
          Inr (replicate (length (takeWhile (\<lambda>d. d = 0) ds)) 0
               @ map of_nat (digits_be 256 (value_be 58 ds))))"

text \<open>
  \<open>new PublicKey(text)\<close> of web3.js decodes the base58 text and raises
  \<open>Invalid public key input\<close> unless it gives 32 bytes.
\<close>

datatype PublicKey = PublicKey (toBuffer: Buffer)

definition new_PublicKey :: "string \<Rightarrow> error + PublicKey" where
  "new_PublicKey s =
     andThen (bs58_decode s)
       (\<lambda>decoded. if length decoded \<noteq> 32 then Inl InvalidPublicKeyInput
                  else Inr (PublicKey decoded))"

section \<open>Program ids (pid.ts)\<close>

definition TOKEN :: PublicKey where
  "TOKEN = projr (new_PublicKey ''TokenkegQfeZyiNwAJbNbGKPFXCWuBvf9Ss623VQ5DA'')"

definition SPL_ASSOCIATED_TOKEN_ACCOUNT :: PublicKey where
  "SPL_ASSOCIATED_TOKEN_ACCOUNT =
     projr (new_PublicKey ''ATokenGPvbdGVxr1b2hvZbsiqW5xWH25efTNsLJA8knL'')"

definition MPL_TOKEN_METADATA :: PublicKey where
  "MPL_TOKEN_METADATA = projr (new_PublicKey ''metaqbxxUerdq28cj1RbAWkYQm3ybzjb6a8bt518x1s'')"

definition GAIMIN_PFP :: PublicKey where
  "GAIMIN_PFP = projr (new_PublicKey ''GMRXrgb2TF6ejGt3nJrUAkwVoKUrnVK5LZ6duRE8x47g'')"

text \<open>\<open>SystemProgram.programId\<close> of web3.js.\<close>

definition SystemProgram_programId :: PublicKey where
  "SystemProgram_programId = projr (new_PublicKey ''11111111111111111111111111111111'')"

section \<open>Address derivation (pda.ts)\<close>

text \<open>
  Modelled from the spec: \<open>PublicKey.findProgramAddressSync\<close>, which the client calls
  and does not define. Section 4.1 of the specification gives it: try the bump values
  from 255 down to 0, hash the seeds, the bump, the program id and a domain suffix with the
  chain's address hash, and take the first bump whose hash is not a valid curve point;
  exhausting all 256 bumps is a fatal derivation error. The hash, the curve test and the
  suffix are parameters.
\<close>

record AddressScheme =
  address_hash :: "Buffer \<Rightarrow> Buffer"
  is_curve_point :: "Buffer \<Rightarrow> bool"
  domainSuffix :: Buffer

definition candidate :: "AddressScheme \<Rightarrow> PublicKey \<Rightarrow> Buffer list \<Rightarrow> nat \<Rightarrow> Buffer" where
  "candidate sch programId seeds bump =
     address_hash sch (concat seeds @ [of_nat bump] @ toBuffer programId @ domainSuffix sch)"

fun bump_search ::
  "AddressScheme \<Rightarrow> PublicKey \<Rightarrow> Buffer list \<Rightarrow> nat \<Rightarrow> error + (PublicKey \<times> nat)" where
  "bump_search sch programId seeds 0 =
     (if \<not> is_curve_point sch (candidate sch programId seeds 0)
      then Inr (PublicKey (candidate sch programId seeds 0), 0)
      else Inl DerivationError)"
| "bump_search sch programId seeds (Suc bump) =
     (if \<not> is_curve_point sch (candidate sch programId seeds (Suc bump))
      then Inr (PublicKey (candidate sch programId seeds (Suc bump)), Suc bump)
      else bump_search sch programId seeds bump)"

definition findProgramAddressSync ::
  "AddressScheme \<Rightarrow> Buffer list \<Rightarrow> PublicKey \<Rightarrow> error + (PublicKey \<times> nat)" where
  "findProgramAddressSync sch seeds programId = bump_search sch programId seeds 255"

text \<open>
  Modelled from the spec: the same search as a relation between the bump the search
  stands at and the pair it returns, one rule for the bump that is taken and one for the
  bump that is passed over.
\<close>

inductive derives ::
  "AddressScheme \<Rightarrow> PublicKey \<Rightarrow> Buffer list \<Rightarrow> nat \<Rightarrow> PublicKey \<times> nat \<Rightarrow> bool"
  for sch programId seeds where
  taken: "\<not> is_curve_point sch (candidate sch programId seeds bump)
     \<Longrightarrow> derives sch programId seeds bump (PublicKey (candidate sch programId seeds bump), bump)"
| passed: "is_curve_point sch (candidate sch programId seeds (Suc bump))
     \<Longrightarrow> derives sch programId seeds bump r
     \<Longrightarrow> derives sch programId seeds (Suc bump) r"

definition Buffer_from :: "string \<Rightarrow> Buffer" where
  "Buffer_from s = encode_utf8 s"

definition findMetadataAccountPda :: "AddressScheme \<Rightarrow> PublicKey \<Rightarrow> error + (PublicKey \<times> nat)" where
  "findMetadataAccountPda sch mint =
     findProgramAddressSync sch
       [Buffer_from ''metadata'', toBuffer MPL_TOKEN_METADATA, toBuffer mint]
       MPL_TOKEN_METADATA"

definition findMasterEditionAccountPda ::
  "AddressScheme \<Rightarrow> PublicKey \<Rightarrow> error + (PublicKey \<times> nat)" where
  "findMasterEditionAccountPda sch mint =
     findProgramAddressSync sch
       [Buffer_from ''metadata'', toBuffer MPL_TOKEN_METADATA, toBuffer mint,
        Buffer_from ''edition'']
       MPL_TOKEN_METADATA"

definition findTokenAccountPda ::
  "AddressScheme \<Rightarrow> PublicKey \<Rightarrow> PublicKey \<Rightarrow> error + (PublicKey \<times> nat)" where
  "findTokenAccountPda sch mint wallet =
     findProgramAddressSync sch
       [toBuffer wallet, toBuffer TOKEN, toBuffer mint]
       SPL_ASSOCIATED_TOKEN_ACCOUNT"

definition findTokenRecordPda ::
  "AddressScheme \<Rightarrow> PublicKey \<Rightarrow> PublicKey \<Rightarrow> error + (PublicKey \<times> nat)" where
  "findTokenRecordPda sch mint token =
     findProgramAddressSync sch
       [Buffer_from ''metadata'', toBuffer MPL_TOKEN_METADATA, toBuffer mint,
        Buffer_from ''token_record'', toBuffer token]
       MPL_TOKEN_METADATA"

definition findConfigPda :: "AddressScheme \<Rightarrow> error + (PublicKey \<times> nat)" where
  "findConfigPda sch = findProgramAddressSync sch [Buffer_from ''config''] GAIMIN_PFP"

definition findNftPda :: "AddressScheme \<Rightarrow> PublicKey \<Rightarrow> error + (PublicKey \<times> nat)" where
  "findNftPda sch mint =
     findProgramAddressSync sch [Buffer_from ''nft'', toBuffer mint] GAIMIN_PFP"

definition findClaimPda ::
  "AddressScheme \<Rightarrow> PublicKey \<Rightarrow> Buffer \<Rightarrow> error + (PublicKey \<times> nat)" where
  "findClaimPda sch wallet seed =
     findProgramAddressSync sch [Buffer_from ''claim'', toBuffer wallet, seed] GAIMIN_PFP"

section \<open>Account records and their decoders (types.ts, parse.ts)\<close>

text \<open>The enumerations of types.ts, as the numbers TypeScript gives their members.\<close>

definition Unlocked :: int where "Unlocked = 0"
definition Locked :: int where "Locked = 1"
definition Listed :: int where "Listed = 2"

definition Sale :: int where "Sale = 0"
definition Transfer :: int where "Transfer = 1"
definition Utility :: int where "Utility = 2"
definition Staking :: int where "Staking = 3"
definition Standard :: int where "Standard = 4"
definition LockedTransfer :: int where "LockedTransfer = 5"
definition Migration :: int where "Migration = 255"

text \<open>
  \<open>delegate\<close> is the base58 text that \<open>bs58.encode\<close> returns (the decoder does not
  wrap it in a \<open>PublicKey\<close>); \<open>None\<close> is JavaScript's \<open>null\<close>.
\<close>

record TokenRecord =
  state :: int
  delegate :: "string option"
  delegateRole :: "int option"

record ConfigRecord =
  authority :: PublicKey
  creator :: PublicKey
  claimable_from :: int
  accumulated_reward :: int
  initial_reward :: int
  accumulation_duration :: int
  generation_duration :: int

record ConfigArgs =
  args_claimable_from :: int
  args_accumulated_reward :: int
  args_initial_reward :: int
  total_accumulation_period :: int
  args_generation_duration :: int

record NftRecord =
  claimed_amount :: int
  total_amount :: int
  last_claimed_at :: int

record ClaimRecord =
  generation :: int
  amount :: int
  owner :: PublicKey
  bnb_chain_wallet_address :: string

text \<open>
  The connection is the chain's account store: the data of each account that exists.
  \<open>getAccountInfo\<close> rejects with "Uninitialized account" on \<open>null\<close>.
\<close>

type_synonym Connection = "PublicKey \<Rightarrow> Buffer option"

definition getAccountInfo :: "Connection \<Rightarrow> PublicKey \<Rightarrow> error + Buffer" where
  "getAccountInfo connection acc =
     (case connection acc of None \<Rightarrow> Inl UninitializedAccount | Some d \<Rightarrow> Inr d)"

definition parseTokenRecord :: "Connection \<Rightarrow> PublicKey \<Rightarrow> error + TokenRecord" where
  "parseTokenRecord connection acc =
     andThen (getAccountInfo connection acc) (\<lambda>d.
     andThen (readInt8 d 2) (\<lambda>st.
     andThen (readInt8 d 3) (\<lambda>revision.
       let offset = 3 + (if revision = 0 then 1 else 9)
       in andThen (readInt8 d offset) (\<lambda>present.
            if present = 0
            then Inr \<lparr>state = st, delegate = None, delegateRole = None\<rparr>
            else andThen (readInt8 d (offset + 34)) (\<lambda>role.
                   Inr \<lparr>state = st,
                        delegate = Some (bs58_encode (slice d (offset + 1) (offset + 33))),
                        delegateRole = Some role\<rparr>)))))"

definition parseConfig :: "Connection \<Rightarrow> PublicKey \<Rightarrow> error + ConfigRecord" where
  "parseConfig connection acc =
     andThen (getAccountInfo connection acc) (\<lambda>d.
     andThen (new_PublicKey (bs58_encode (slice d 0 32))) (\<lambda>a.
     andThen (new_PublicKey (bs58_encode (slice d 32 64))) (\<lambda>c.
     andThen (readInt32LE d 64) (\<lambda>cf.
     andThen (readInt32LE d 68) (\<lambda>ar.
     andThen (readInt32LE d 72) (\<lambda>ir.
     andThen (readInt32LE d 76) (\<lambda>ad.
     andThen (readInt32LE d 80) (\<lambda>gd.
       Inr \<lparr>authority = a, creator = c, claimable_from = cf, accumulated_reward = ar,
            initial_reward = ir, accumulation_duration = ad,
            generation_duration = gd\<rparr>))))))))"

definition parseNft :: "Connection \<Rightarrow> PublicKey \<Rightarrow> error + NftRecord" where
  "parseNft connection acc =
     andThen (getAccountInfo connection acc) (\<lambda>d.
     andThen (readInt32LE d 0) (\<lambda>ca.
     andThen (readInt32LE d 4) (\<lambda>ta.
     andThen (readInt32LE d 8) (\<lambda>lc.
       Inr \<lparr>claimed_amount = ca, total_amount = ta, last_claimed_at = lc\<rparr>))))"

definition parseClaim :: "Connection \<Rightarrow> PublicKey \<Rightarrow> error + ClaimRecord" where
  "parseClaim connection acc =
     andThen (getAccountInfo connection acc) (\<lambda>d.
     andThen (readInt32LE d 0) (\<lambda>g.
     andThen (readInt32LE d 4) (\<lambda>a.
     andThen (new_PublicKey (bs58_encode (slice d 8 40))) (\<lambda>ow.
       Inr \<lparr>generation = g, amount = a, owner = ow,
            bnb_chain_wallet_address = ''0x'' @ toString_utf8 d 40\<rparr>))))"

section \<open>The legacy client (client.ts)\<close>

text \<open>
  \<open>new Date(1000 * Number(seconds))\<close>: a time value in milliseconds, or an invalid date
  beyond 8.64e15 milliseconds either side of the epoch.
\<close>

datatype Date = Date int | InvalidDate

definition new_Date_of_seconds :: "int \<Rightarrow> Date" where
  "new_Date_of_seconds s = (if \<bar>s\<bar> \<le> 8640000000000 then Date (1000 * s) else InvalidDate)"

record LegacyConfig =
  legacy_authority :: string
  legacy_claimable_from :: Date
  total_reward :: int
  initial_reward_frac :: int
  reward_period_sec :: int

text \<open>The legacy decoder returns \<open>null\<close> (here \<open>None\<close>) for an account that does not exist.\<close>

definition legacy_parseConfig :: "PublicKey \<Rightarrow> Connection \<Rightarrow> error + LegacyConfig option" where
  "legacy_parseConfig config_pda connection =
     (case connection config_pda of
        None \<Rightarrow> Inr None
      | Some d \<Rightarrow>
          andThen (readBigInt64LE d 32) (\<lambda>cf.
          andThen (readDoubleLE d 40) (\<lambda>tr.
          andThen (readFloatLE d 48) (\<lambda>fr.
          andThen (readInt32LE d 52) (\<lambda>rp.
            Inr (Some \<lparr>legacy_authority = bs58_encode (slice d 0 32),
                       legacy_claimable_from = new_Date_of_seconds cf,
                       total_reward = tr, initial_reward_frac = fr,
                       reward_period_sec = rp\<rparr>))))))"

section \<open>Instruction builders (instruction.ts)\<close>

definition CONFIG :: int where "CONFIG = 0"
definition DELETE :: int where "DELETE = 1"
definition NFT :: int where "NFT = 2"
definition CREATE_CLAIM :: int where "CREATE_CLAIM = 3"
definition CLAIM :: int where "CLAIM = 4"

record AccountMeta =
  pubkey :: PublicKey
  isSigner :: bool
  isWritable :: bool

record TransactionInstruction =
  data :: Buffer
  keys :: "AccountMeta list"
  programId :: PublicKey

text \<open>\<open>Uint8Array.of(...)\<close> stores each number modulo 256.\<close>

definition Uint8Array_of :: "int list \<Rightarrow> Buffer" where
  "Uint8Array_of xs = map word_of_int xs"

definition setConfigInstruction ::
  "AddressScheme \<Rightarrow> Buffer \<Rightarrow> PublicKey \<Rightarrow> PublicKey \<Rightarrow> ConfigArgs
     \<Rightarrow> error + TransactionInstruction" where
  "setConfigInstruction sch junk signer creator_key config =
     andThen (writeInt8 (allocUnsafe (1 + 5 * 4) junk) CONFIG 0) (\<lambda>d0.
     andThen (writeInt32LE d0 (args_claimable_from config) 1) (\<lambda>d1.
     andThen (writeInt32LE d1 (args_accumulated_reward config) 5) (\<lambda>d2.
     andThen (writeInt32LE d2 (args_initial_reward config) 9) (\<lambda>d3.
     andThen (writeInt32LE d3 (total_accumulation_period config) 13) (\<lambda>d4.
     andThen (writeInt32LE d4 (args_generation_duration config) 17) (\<lambda>d5.
     andThen (findConfigPda sch) (\<lambda>config_pda.
       Inr \<lparr>data = d5,
            keys = [\<lparr>pubkey = signer, isSigner = True, isWritable = False\<rparr>,
                    \<lparr>pubkey = creator_key, isSigner = False, isWritable = False\<rparr>,
                    \<lparr>pubkey = fst config_pda, isSigner = False, isWritable = True\<rparr>,
                    \<lparr>pubkey = SystemProgram_programId, isSigner = False,
                     isWritable = False\<rparr>],
            programId = GAIMIN_PFP\<rparr>)))))))"

definition registerNftInstruction ::
  "AddressScheme \<Rightarrow> PublicKey \<Rightarrow> PublicKey \<Rightarrow> error + TransactionInstruction" where
  "registerNftInstruction sch signer mint =
     andThen (findMetadataAccountPda sch mint) (\<lambda>metadata.
     andThen (findMasterEditionAccountPda sch mint) (\<lambda>edition.
     andThen (findNftPda sch mint) (\<lambda>nft.
     andThen (findConfigPda sch) (\<lambda>config_pda.
       Inr \<lparr>data = Uint8Array_of [NFT],
            keys = [\<lparr>pubkey = signer, isSigner = True, isWritable = False\<rparr>,
                    \<lparr>pubkey = mint, isSigner = False, isWritable = False\<rparr>,
                    \<lparr>pubkey = fst metadata, isSigner = False, isWritable = False\<rparr>,
                    \<lparr>pubkey = fst edition, isSigner = False, isWritable = False\<rparr>,
                    \<lparr>pubkey = fst nft, isSigner = False, isWritable = True\<rparr>,
                    \<lparr>pubkey = fst config_pda, isSigner = False, isWritable = False\<rparr>,
                    \<lparr>pubkey = SystemProgram_programId, isSigner = False,
                     isWritable = False\<rparr>],
            programId = GAIMIN_PFP\<rparr>))))"

definition createClaimInstruction ::
  "AddressScheme \<Rightarrow> PublicKey \<Rightarrow> string \<Rightarrow> Buffer \<Rightarrow> error + TransactionInstruction" where
  "createClaimInstruction sch wallet bnbWallet claim_seed =
     andThen (findClaimPda sch wallet claim_seed) (\<lambda>claim_bump.
     andThen (findConfigPda sch) (\<lambda>config_pda.
       Inr \<lparr>data = Uint8Array_of ([CREATE_CLAIM, int (snd claim_bump)] @ map uint claim_seed
                                   @ map uint (encode_utf8 (drop 2 bnbWallet))),
            keys = [\<lparr>pubkey = wallet, isSigner = True, isWritable = False\<rparr>,
                    \<lparr>pubkey = fst claim_bump, isSigner = False, isWritable = True\<rparr>,
                    \<lparr>pubkey = fst config_pda, isSigner = False, isWritable = False\<rparr>,
                    \<lparr>pubkey = SystemProgram_programId, isSigner = False,
                     isWritable = False\<rparr>],
            programId = GAIMIN_PFP\<rparr>))"

definition claimInstruction ::
  "AddressScheme \<Rightarrow> PublicKey \<Rightarrow> PublicKey \<Rightarrow> Buffer \<Rightarrow> error + TransactionInstruction" where
  "claimInstruction sch wallet mint claim_seed =
     andThen (findNftPda sch mint) (\<lambda>nft.
     andThen (findTokenAccountPda sch mint wallet) (\<lambda>token.
     andThen (findConfigPda sch) (\<lambda>config_pda.
     andThen (findTokenRecordPda sch mint (fst token)) (\<lambda>token_record.
     andThen (findClaimPda sch wallet claim_seed) (\<lambda>claim_pda.
       Inr \<lparr>data = Uint8Array_of [CLAIM, int (snd token), int (snd token_record),
                                   int (snd nft)],
            keys = [\<lparr>pubkey = wallet, isSigner = True, isWritable = False\<rparr>,
                    \<lparr>pubkey = fst token, isSigner = False, isWritable = False\<rparr>,
                    \<lparr>pubkey = fst token_record, isSigner = False, isWritable = False\<rparr>,
                    \<lparr>pubkey = fst nft, isSigner = False, isWritable = True\<rparr>,
                    \<lparr>pubkey = fst claim_pda, isSigner = False, isWritable = True\<rparr>,
                    \<lparr>pubkey = fst config_pda, isSigner = False, isWritable = False\<rparr>],
            programId = GAIMIN_PFP\<rparr>)))))"

section \<open>Transactions (transaction.ts)\<close>

text \<open>
  \<open>crypto.randomBytes(n)\<close> takes the next \<open>n\<close> bytes of the entropy the process will
  receive; the entropy is passed along as state.
\<close>

type_synonym Entropy = "nat \<Rightarrow> byte"

definition randomBytes :: "nat \<Rightarrow> Entropy \<Rightarrow> Buffer \<times> Entropy" where
  "randomBytes n ent = (map ent [0..<n], \<lambda>i. ent (i + n))"

record Keypair =
  publicKey :: PublicKey
  secretKey :: Buffer

record TransactionMessageArgs =
  payerKey :: PublicKey
  instructions :: "TransactionInstruction list"

text \<open>An array literal of calls and spreads: left to right, the first raise ends it.\<close>

fun mapE :: "('a \<Rightarrow> error + 'b) \<Rightarrow> 'a list \<Rightarrow> error + 'b list" where
  "mapE f [] = Inr []"
| "mapE f (x # xs) = andThen (f x) (\<lambda>y. andThen (mapE f xs) (\<lambda>ys. Inr (y # ys)))"

text \<open>
  \<open>claimReward\<close> up to the call of \<open>sendAndConfirmTransaction\<close>: the message it hands
  over for signing and submission (or the raise of a builder), and the entropy left. Its
  arguments \<open>connection\<close> and \<open>luts\<close> are only passed on to that call.
\<close>

definition claimReward ::
  "AddressScheme \<Rightarrow> Entropy \<Rightarrow> Keypair \<Rightarrow> PublicKey list \<Rightarrow> string
     \<Rightarrow> (error + TransactionMessageArgs) \<times> Entropy" where
  "claimReward sch ent userPayer mints bnbWallet =
     (let claim_seed = fst (randomBytes 32 ent)
      in (andThen (createClaimInstruction sch (publicKey userPayer) bnbWallet claim_seed) (\<lambda>c.
          andThen (mapE (registerNftInstruction sch (publicKey userPayer)) mints) (\<lambda>rs.
          andThen (mapE (\<lambda>mint. claimInstruction sch (publicKey userPayer) mint claim_seed)
                     mints) (\<lambda>es.
            Inr \<lparr>payerKey = publicKey userPayer, instructions = c # rs @ es\<rparr>))),
          snd (randomBytes 32 ent)))"

section \<open>The driver (index.ts)\<close>

definition bnbWallet :: string where
  "bnbWallet = ''0xC3Fc58A10056fDF37b0AAAE295Ef3C42609988B8''"

definition claim ::
  "AddressScheme \<Rightarrow> Keypair \<Rightarrow> Entropy \<Rightarrow> PublicKey list
     \<Rightarrow> (error + TransactionMessageArgs) \<times> Entropy" where
  "claim sch wallet ent mints = claimReward sch ent wallet mints bnbWallet"

text \<open>\<open>Array.prototype.slice(start, end)\<close>: a negative index counts from the end.\<close>

definition Array_slice :: "'a list \<Rightarrow> int \<Rightarrow> int \<Rightarrow> 'a list" where
  "Array_slice xs start end =
     (let len = int (length xs);
          k = (if start < 0 then max (len + start) 0 else min start len);
          final = (if end < 0 then max (len + end) 0 else min end len)
      in take (nat (final - k)) (drop (nat k) xs))"

text \<open>
  The loop of \<open>concurrentClaim\<close>, with its variables \<open>i\<close> and \<open>promises\<close>. Each promise
  is kept as what its call of \<open>claim\<close> assembles before it first waits. A loop that
  never ends has the value \<open>None\<close>.
\<close>

partial_function (option) concurrentClaim_loop ::
  "AddressScheme \<Rightarrow> Keypair \<Rightarrow> PublicKey list \<Rightarrow> int \<Rightarrow> int
     \<Rightarrow> (error + TransactionMessageArgs) list \<Rightarrow> Entropy
     \<Rightarrow> ((error + TransactionMessageArgs) list \<times> Entropy) option" where
  "concurrentClaim_loop sch wallet mints chunkSize i promises ent =
     (if i < int (length mints)
      then (let chunk = Array_slice mints i (i + chunkSize);
                p = claim sch wallet ent chunk
            in concurrentClaim_loop sch wallet mints chunkSize (i + chunkSize)
                 (promises @ [fst p]) (snd p))
      else Some (promises, ent))"

definition concurrentClaim ::
  "AddressScheme \<Rightarrow> Keypair \<Rightarrow> Entropy \<Rightarrow> PublicKey list \<Rightarrow> int
     \<Rightarrow> (error + TransactionMessageArgs) list option" where
  "concurrentClaim sch wallet ent mints chunkSize =
     map_option fst (concurrentClaim_loop sch wallet mints chunkSize 0 [] ent)"

section \<open>Auxiliary functions for the proofs\<close>

text \<open>
  \<open>chunk_list n xs\<close> cuts \<open>xs\<close> into pieces of \<open>n\<close> elements, the last one possibly
  shorter; \<open>claim_all\<close> calls \<open>claim\<close> on each piece of a list in turn, passing the
  entropy along.
\<close>

fun chunk_list :: "nat \<Rightarrow> 'a list \<Rightarrow> 'a list list" where
  "chunk_list n xs = (if xs = [] \<or> n = 0 then [] else take n xs # chunk_list n (drop n xs))"

fun claim_all ::
  "AddressScheme \<Rightarrow> Keypair \<Rightarrow> Entropy \<Rightarrow> PublicKey list list
     \<Rightarrow> (error + TransactionMessageArgs) list \<times> Entropy" where
  "claim_all sch wallet ent [] = ([], ent)"
| "claim_all sch wallet ent (ch # chs) =
     (fst (claim sch wallet ent ch) # fst (claim_all sch wallet (snd (claim sch wallet ent ch)) chs),
      snd (claim_all sch wallet (snd (claim sch wallet ent ch)) chs))"

text \<open>
  The four bytes that \<open>writeInt32LE\<close> stores for a value, and the range of values it
  accepts.
\<close>

definition le32 :: "int \<Rightarrow> Buffer" where
  "le32 v = [word_of_int v, word_of_int (v mod 2 ^ 32 div 2 ^ 8),
             word_of_int (v mod 2 ^ 32 div 2 ^ 16), word_of_int (v mod 2 ^ 32 div 2 ^ 24)]"

definition is_int32 :: "int \<Rightarrow> bool" where
  "is_int32 v \<longleftrightarrow> - (2 ^ 31) \<le> v \<and> v < 2 ^ 31"

text \<open>A chain that holds the data \<open>d\<close> at the address \<open>acc\<close> and nothing else.\<close>

definition account_at :: "PublicKey \<Rightarrow> Buffer \<Rightarrow> Connection" where
  "account_at acc d = (\<lambda>a. if a = acc then Some d else None)"

section \<open>Concrete inputs\<close>

text \<open>
  Two address schemes: one whose curve test never holds, so that every derivation takes
  bump 255, and one whose curve test looks at byte 6 of the hash, so that the config
  derivation passes over bumps 255 and 254.
\<close>

definition sample_scheme :: AddressScheme where
  "sample_scheme = \<lparr>address_hash = take 32, is_curve_point = (\<lambda>h. False),
                     domainSuffix = Buffer_from ''ProgramDerivedAddress''\<rparr>"

definition skipping_scheme :: AddressScheme where
  "skipping_scheme = \<lparr>address_hash = take 32, is_curve_point = (\<lambda>h. 253 < unat (h ! 6)),
                       domainSuffix = Buffer_from ''ProgramDerivedAddress''\<rparr>"

definition sample_wallet :: Keypair where
  "sample_wallet = \<lparr>publicKey = PublicKey (replicate 32 7), secretKey = replicate 64 1\<rparr>"

definition sample_entropy :: Entropy where
  "sample_entropy = (\<lambda>i. of_nat i)"

definition two_mints :: "PublicKey list" where
  "two_mints = [PublicKey (replicate 32 1), PublicKey (replicate 32 2)]"

definition nine_mints :: "PublicKey list" where
  "nine_mints = map (\<lambda>b. PublicKey [b]) [1, 2, 3, 4, 5, 6, 7, 8, 9]"

text \<open>
  A token record of the metadata program: key, bump, state 1, no rule-set revision, a
  delegate (bytes 1 to 32), the role option with role 3, no locked-transfer address.
\<close>

definition sample_token_record :: Buffer where
  "sample_token_record = [4, 255, 1, 0, 1] @ map of_nat [1..<33] @ [1, 3, 0]"

text \<open>
  The configuration that release.ts sets, and a config account of the primary layout
  holding it: two keys, then the five values as little-endian 4-byte integers.
\<close>

definition release_config :: ConfigArgs where
  "release_config = \<lparr>args_claimable_from = 1711447200, args_accumulated_reward = 3282800,
                      args_initial_reward = 820700, total_accumulation_period = 25920000,
                      args_generation_duration = 3600\<rparr>"

definition release_account :: Buffer where
  "release_account = replicate 32 7 @ replicate 32 1
     @ [160, 156, 2, 102, 112, 23, 50, 0, 220, 133, 12, 0, 0, 130, 139, 1, 16, 14, 0, 0]"

declare chunk_list.simps [simp del]

section \<open>Base58\<close>

declare digits_be.simps [simp del]

lemma value_be_snoc: "value_be b (ds @ [d]) = value_be b ds * b + d"
  by (simp add: value_be_def)

lemma value_be_Nil: "value_be b [] = 0"
  by (simp add: value_be_def)

lemma value_be_digits: "2 \<le> b \<Longrightarrow> value_be b (digits_be b n) = n"
proof (induction b n rule: digits_be.induct)
  case (1 b n)
  show ?case
  proof (cases "n = 0")
    case True
    then show ?thesis by (subst digits_be.simps) (simp add: value_be_Nil)
  next
    case False
    with 1 have "value_be b (digits_be b (n div b)) = n div b" by simp
    with False 1(2) show ?thesis
      by (subst digits_be.simps) (simp add: value_be_snoc)
  qed
qed

lemma digits_be_0: "digits_be b 0 = []"
  by (subst digits_be.simps) simp

lemma digits_be_step:
  "2 \<le> b \<Longrightarrow> 0 < n \<Longrightarrow> digits_be b n = digits_be b (n div b) @ [n mod b]"
  by (subst digits_be.simps) simp

lemma digits_be_eq_Nil: "2 \<le> b \<Longrightarrow> digits_be b n = [] \<longleftrightarrow> n = 0"
  by (subst digits_be.simps) simp

lemma digits_be_bound: "2 \<le> b \<Longrightarrow> d \<in> set (digits_be b n) \<Longrightarrow> d < b"
proof (induction b n rule: digits_be.induct)
  case (1 b n)
  show ?case
  proof (cases "n = 0")
    case True
    with 1(3) show ?thesis by (simp add: digits_be_0)
  next
    case False
    with 1(2,3) have "d \<in> set (digits_be b (n div b)) \<or> d = n mod b"
      by (auto simp add: digits_be_step)
    then show ?thesis
    proof
      assume "d \<in> set (digits_be b (n div b))"
      with 1(1) False 1(2) show ?thesis by simp
    next
      assume "d = n mod b"
      with 1(2) show ?thesis by simp
    qed
  qed
qed

lemma digits_be_hd: "2 \<le> b \<Longrightarrow> 0 < n \<Longrightarrow> hd (digits_be b n) \<noteq> 0"
proof (induction b n rule: digits_be.induct)
  case (1 b n)
  show ?case
  proof (cases "n div b = 0")
    case True
    then have "n < b" using 1(2) by (simp add: div_eq_0_iff)
    with True 1(2,3) show ?thesis by (simp add: digits_be_step digits_be_0)
  next
    case False
    then have pos: "0 < n div b" by simp
    with 1(1) 1(2,3) have "hd (digits_be b (n div b)) \<noteq> 0" by simp
    moreover have "digits_be b (n div b) \<noteq> []" using pos 1(2) by (simp add: digits_be_eq_Nil)
    ultimately show ?thesis using 1(2,3) by (simp add: digits_be_step)
  qed
qed

lemma digits_be_value:
  assumes "2 \<le> b" "\<forall>d\<in>set ds. d < b" "ds \<noteq> [] \<longrightarrow> hd ds \<noteq> 0"
  shows "digits_be b (value_be b ds) = ds"
  using assms(2,3)
proof (induction ds rule: rev_induct)
  case Nil
  show ?case by (simp add: value_be_Nil digits_be_0)
next
  case (snoc d ds)
  have d: "d < b" using snoc.prems(1) by simp
  have IH: "digits_be b (value_be b ds) = ds"
  proof (rule snoc.IH)
    show "\<forall>d\<in>set ds. d < b" using snoc.prems(1) by simp
    show "ds \<noteq> [] \<longrightarrow> hd ds \<noteq> 0" using snoc.prems(2) by (cases ds) auto
  qed
  have pos: "0 < value_be b ds * b + d"
  proof (cases "ds = []")
    case True
    with snoc.prems(2) show ?thesis by simp
  next
    case False
    with IH have "value_be b ds \<noteq> 0" by (metis digits_be_0)
    then show ?thesis using assms(1) by simp
  qed
  have "(value_be b ds * b + d) div b = value_be b ds" using d by simp
  moreover have "(value_be b ds * b + d) mod b = d" using d by simp
  ultimately show ?case
    using digits_be_step [OF assms(1) pos] IH by (simp add: value_be_snoc)
qed

lemma value_be_zeros: "value_be b (replicate z 0 @ ds) = value_be b ds"
proof (induction z)
  case 0
  show ?case by simp
next
  case (Suc z)
  have "foldl (\<lambda>a d. a * b + d) 0 (0 # replicate z 0 @ ds)
      = foldl (\<lambda>a d. a * b + d) 0 (replicate z 0 @ ds)" by simp
  with Suc show ?case by (simp add: value_be_def)
qed

lemma index_of_nth: "distinct xs \<Longrightarrow> i < length xs \<Longrightarrow> index_of (xs ! i) xs = Some i"
proof (induction xs arbitrary: i)
  case Nil
  then show ?case by simp
next
  case (Cons x xs)
  show ?case
  proof (cases i)
    case 0
    then show ?thesis by simp
  next
    case (Suc j)
    with Cons.prems have "xs ! j \<noteq> x" by auto
    with Suc Cons show ?thesis by auto
  qed
qed

lemma b58_alphabet_distinct: "distinct b58_alphabet"
  by (simp add: b58_alphabet_def)

lemma b58_alphabet_length: "length b58_alphabet = 58"
  by (simp add: b58_alphabet_def)

lemma b58_index_nth: "d < 58 \<Longrightarrow> index_of (b58_alphabet ! d) b58_alphabet = Some d"
  by (rule index_of_nth [OF b58_alphabet_distinct]) (simp add: b58_alphabet_length)

lemma b58_index_one: "index_of (CHR ''1'') b58_alphabet = Some 0"
  by (simp add: b58_alphabet_def)

lemma those_map_Some: "\<forall>x\<in>set xs. f x = Some (g x) \<Longrightarrow> those (map f xs) = Some (map g xs)"
  by (induction xs) simp_all

lemma takeWhile_zeros:
  "ds \<noteq> [] \<longrightarrow> hd ds \<noteq> (0::nat) \<Longrightarrow> takeWhile (\<lambda>d. d = 0) (replicate z 0 @ ds) = replicate z 0"
  by (induction z) (cases ds; simp)+

lemma takeWhile_replicate_eq: "takeWhile (\<lambda>x. x = a) xs = replicate (length (takeWhile (\<lambda>x. x = a) xs)) a"
  by (induction xs) simp_all

lemma bs58_roundtrip: "bs58_decode (bs58_encode bs) = Inr bs"
proof -
  define z where "z = length (takeWhile (\<lambda>x. x = 0) bs)"
  define rest where "rest = dropWhile (\<lambda>x. x = 0) bs"
  define N where "N = value_be 256 (map unat bs)"
  define digs where "digs = digits_be 58 N"
  have bs: "bs = replicate z 0 @ rest"
    unfolding z_def rest_def
    using takeWhile_replicate_eq [of 0 bs] takeWhile_dropWhile_id [of "\<lambda>x. x = 0" bs] by simp
  have N: "N = value_be 256 (map unat rest)"
    unfolding N_def by (subst bs) (simp add: value_be_zeros)
  have rest_hd: "map unat rest \<noteq> [] \<longrightarrow> hd (map unat rest) \<noteq> 0"
  proof
    assume "map unat rest \<noteq> []"
    then have ne: "rest \<noteq> []" by simp
    then have "hd rest \<noteq> 0" unfolding rest_def by (metis (mono_tags, lifting) hd_dropWhile)
    then show "hd (map unat rest) \<noteq> 0" using ne by (simp add: hd_map unat_eq_0)
  qed
  have rest_bound: "\<forall>d\<in>set (map unat rest). d < 256"
  proof
    fix d assume "d \<in> set (map unat rest)"
    then obtain w :: byte where "d = unat w" by auto
    then show "d < 256" using unsigned_less [of w, where ?'a = nat] by simp
  qed
  have enc: "bs58_encode bs = replicate z (CHR ''1'') @ map (\<lambda>d. b58_alphabet ! d) digs"
    by (simp add: bs58_encode_def z_def digs_def N_def)
  have digs_bound: "\<forall>d\<in>set digs. d < 58"
    unfolding digs_def using digits_be_bound [of 58 _ N] by simp
  have digs_hd: "digs \<noteq> [] \<longrightarrow> hd digs \<noteq> 0"
  proof
    assume "digs \<noteq> []"
    then have "0 < N" unfolding digs_def by (simp add: digits_be_eq_Nil)
    then show "hd digs \<noteq> 0" unfolding digs_def by (simp add: digits_be_hd)
  qed
  have idx: "those (map (\<lambda>c. index_of c b58_alphabet) (bs58_encode bs))
      = Some (replicate z 0 @ digs)"
  proof -
    have m: "map (\<lambda>c. index_of c b58_alphabet) (bs58_encode bs)
        = map Some (replicate z 0 @ digs)"
      unfolding enc using digs_bound by (simp add: b58_index_one b58_index_nth)
    have t: "those (map Some xs) = Some xs" for xs :: "nat list"
      by (induction xs) simp_all
    show ?thesis unfolding m by (rule t)
  qed
  have tw: "takeWhile (\<lambda>d. d = 0) (replicate z 0 @ digs) = replicate z 0"
    by (rule takeWhile_zeros [OF digs_hd])
  have val: "value_be 58 (replicate z 0 @ digs) = N"
    by (simp add: value_be_zeros digs_def value_be_digits)
  have dg: "digits_be 256 N = map unat rest"
    unfolding N by (rule digits_be_value [OF _ rest_bound rest_hd]) simp
  have "map of_nat (map unat rest) = rest" by (simp add: map_idI)
  then show ?thesis
    by (simp add: bs58_decode_def idx tw val dg) (simp add: bs [symmetric])
qed

lemma new_PublicKey_encode:
  "new_PublicKey (bs58_encode bs) =
     (if length bs = 32 then Inr (PublicKey bs) else Inl InvalidPublicKeyInput)"
  by (simp add: new_PublicKey_def bs58_roundtrip andThen_def)

text \<open>The program ids are well-formed keys: their base58 text decodes to 32 bytes.\<close>

lemma TOKEN_bytes:
  "TOKEN =
     PublicKey
      [6, 221, 246, 225, 215, 101, 161, 147, 217, 203, 225, 70, 206, 235, 121, 172,
       28, 180, 133, 237, 95, 91, 55, 145, 58, 140, 245, 133, 126, 255, 0, 169]"
  unfolding TOKEN_def
  by (simp add: new_PublicKey_def bs58_decode_def b58_alphabet_def value_be_def andThen_def
      digits_be.simps)

lemma SPL_ASSOCIATED_TOKEN_ACCOUNT_bytes:
  "SPL_ASSOCIATED_TOKEN_ACCOUNT =
     PublicKey
      [140, 151, 37, 143, 78, 36, 137, 241, 187, 61, 16, 41, 20, 142, 13, 131, 11,
       90, 19, 153, 218, 255, 16, 132, 4, 142, 123, 216, 219, 233, 248, 89]"
  unfolding SPL_ASSOCIATED_TOKEN_ACCOUNT_def
  by (simp add: new_PublicKey_def bs58_decode_def b58_alphabet_def value_be_def andThen_def
      digits_be.simps)

lemma MPL_TOKEN_METADATA_bytes:
  "MPL_TOKEN_METADATA =
     PublicKey
      [11, 112, 101, 177, 227, 209, 124, 69, 56, 157, 82, 127, 107, 4, 195, 205, 88,
       184, 108, 115, 26, 160, 253, 181, 73, 182, 209, 188, 3, 248, 41, 70]"
  unfolding MPL_TOKEN_METADATA_def
  by (simp add: new_PublicKey_def bs58_decode_def b58_alphabet_def value_be_def andThen_def
      digits_be.simps)

lemma GAIMIN_PFP_bytes:
  "GAIMIN_PFP =
     PublicKey
      [228, 26, 168, 148, 15, 123, 106, 54, 71, 60, 192, 131, 76, 206, 97, 164, 199,
       62, 150, 94, 190, 103, 169, 61, 27, 253, 50, 71, 121, 50, 18, 23]"
  unfolding GAIMIN_PFP_def
  by (simp add: new_PublicKey_def bs58_decode_def b58_alphabet_def value_be_def andThen_def
      digits_be.simps)

lemma SystemProgram_programId_bytes:
  "SystemProgram_programId =
     PublicKey
      [0, 0, 0, 0, 0, 0, 0, 0, 0, 0, 0, 0, 0, 0, 0, 0, 0, 0, 0, 0, 0, 0, 0, 0, 0, 0,
       0, 0, 0, 0, 0, 0]"
  unfolding SystemProgram_programId_def
  by (simp add: new_PublicKey_def bs58_decode_def b58_alphabet_def value_be_def andThen_def
      digits_be.simps)

section \<open>The chunk loop\<close>

lemma Array_slice_chunk:
  assumes "1 \<le> c" "j < length xs"
  shows "Array_slice xs (int j) (int j + c) = take (nat c) (drop j xs)"
  using assms by (auto simp: Array_slice_def Let_def min_def)

lemma chunk_list_drop:
  assumes "0 < n" "j < length xs"
  shows "chunk_list n (drop j xs) = take n (drop j xs) # chunk_list n (drop (j + n) xs)"
  using assms by (subst chunk_list.simps) (simp add: add.commute)

lemma loop_eq:
  assumes "1 \<le> c"
  shows "concurrentClaim_loop sch wallet mints c (int j) promises ent =
         Some (promises @ fst (claim_all sch wallet ent (chunk_list (nat c) (drop j mints))),
               snd (claim_all sch wallet ent (chunk_list (nat c) (drop j mints))))"
proof (induction "length mints - j" arbitrary: j promises ent rule: less_induct)
  case less
  show ?case
  proof (cases "j < length mints")
    case False
    then show ?thesis
      by (subst concurrentClaim_loop.simps) (simp add: chunk_list.simps)
  next
    case True
    have c: "int j + c = int (j + nat c)" using assms by simp
    have lt: "length mints - (j + nat c) < length mints - j" using True assms by simp
    show ?thesis
      apply (subst concurrentClaim_loop.simps)
      using True assms
      apply (simp add: Let_def Array_slice_chunk chunk_list_drop del: of_nat_add)
      apply (simp only: c less.hyps [OF lt])
      apply simp
      done
  qed
qed

lemma loop_diverges:
  assumes "concurrentClaim_loop sch wallet mints c i promises ent = Some r" "c \<le> 0"
  shows "\<not> i < int (length mints)"
proof -
  have "c \<le> 0 \<longrightarrow> \<not> i < int (length mints)"
  proof (rule concurrentClaim_loop.raw_induct
      [where P = "\<lambda>sch wallet mints c i promises ent r. c \<le> 0 \<longrightarrow> \<not> i < int (length mints)",
        OF _ assms(1)])
    fix f sch wallet mints chunkSize i promises ent r
    assume IH: "\<And>sch wallet mints chunkSize i promises ent y.
        f sch wallet mints chunkSize i promises ent = Some y
        \<Longrightarrow> chunkSize \<le> 0 \<longrightarrow> \<not> i < int (length (mints :: PublicKey list))"
      and body: "(if i < int (length mints)
        then let chunk = Array_slice mints i (i + chunkSize); p = claim sch wallet ent chunk
             in f sch wallet mints chunkSize (i + chunkSize) (promises @ [fst p]) (snd p)
        else Some (promises, ent)) = Some r"
    show "chunkSize \<le> 0 \<longrightarrow> \<not> i < int (length mints)"
    proof (intro impI notI)
      assume le: "chunkSize \<le> 0" and lt: "i < int (length mints)"
      from body lt have "f sch wallet mints chunkSize (i + chunkSize)
          (promises @ [fst (claim sch wallet ent (Array_slice mints i (i + chunkSize)))])
          (snd (claim sch wallet ent (Array_slice mints i (i + chunkSize)))) = Some r"
        by (simp add: Let_def)
      from IH [OF this] le lt show False by simp
    qed
  qed
  with assms(2) show ?thesis by simp
qed

lemma loop_None:
  assumes "c \<le> 0" "i < int (length mints)"
  shows "concurrentClaim_loop sch wallet mints c i promises ent = None"
proof (cases "concurrentClaim_loop sch wallet mints c i promises ent")
  case (Some r)
  from loop_diverges [OF this assms(1)] assms(2) show ?thesis by simp
qed simp

lemma chunk_list_concat: "0 < n \<Longrightarrow> concat (chunk_list n xs) = xs"
proof (induction n xs rule: chunk_list.induct)
  case (1 n xs)
  then show ?case by (subst chunk_list.simps) auto
qed

lemma chunk_list_nth:
  "0 < n \<Longrightarrow> k < length (chunk_list n xs) \<Longrightarrow> chunk_list n xs ! k = take n (drop (k * n) xs)"
proof (induction n xs arbitrary: k rule: chunk_list.induct)
  case (1 n xs)
  show ?case
  proof (cases "xs = []")
    case True
    with 1(3) show ?thesis by (simp add: chunk_list.simps)
  next
    case False
    have unf: "chunk_list n xs = take n xs # chunk_list n (drop n xs)"
      using False 1(2) by (subst chunk_list.simps) simp
    show ?thesis
    proof (cases k)
      case 0
      then show ?thesis using unf by simp
    next
      case (Suc k')
      with 1(3) unf have "k' < length (chunk_list n (drop n xs))" by simp
      from 1(1) [OF _ 1(2) this] False 1(2)
      have "chunk_list n (drop n xs) ! k' = take n (drop (k' * n) (drop n xs))" by simp
      then show ?thesis using unf Suc by (simp add: add.commute)
    qed
  qed
qed

lemma ceil_small: fixes m n :: nat assumes "0 < m" "m \<le> n" shows "(m + n - 1) div n = 1"
proof -
  obtain k where k: "m = Suc k" using assms(1) by (cases m) auto
  have "m + n - 1 = k + n" using k by simp
  moreover have "k < n" using k assms(2) by simp
  ultimately show ?thesis using assms by (simp add: div_add_self2)
qed

lemma ceil_step: fixes m n :: nat assumes "0 < n" "n < m"
  shows "(m + n - 1) div n = Suc ((m - 1) div n)"
proof -
  define a where "a = m - 1"
  have "m + n - 1 = a + n" using assms by (simp add: a_def)
  moreover have "(a + n) div n = Suc (a div n)" using div_add_self2 [of n a] assms(1) by simp
  ultimately show ?thesis by (simp add: a_def)
qed

lemma chunk_list_length: "0 < n \<Longrightarrow> length (chunk_list n xs) = (length xs + n - 1) div n"
proof (induction n xs rule: chunk_list.induct)
  case (1 n xs)
  show ?case
  proof (cases "xs = []")
    case True
    then show ?thesis using 1(2) by (subst chunk_list.simps) simp
  next
    case False
    have unf: "chunk_list n xs = take n xs # chunk_list n (drop n xs)"
      using False 1(2) by (subst chunk_list.simps) simp
    from 1(1) False 1(2)
    have IH: "length (chunk_list n (drop n xs)) = (length (drop n xs) + n - 1) div n" by simp
    show ?thesis
    proof (cases "length xs \<le> n")
      case True
      have "0 < length xs" using False by simp
      from ceil_small [OF this True] True IH unf 1(2) show ?thesis by simp
    next
      case F2: False
      then have lt: "n < length xs" by simp
      have "length (drop n xs) + n - 1 = length xs - 1" using lt by simp
      with IH ceil_step [OF 1(2) lt] unf show ?thesis by simp
    qed
  qed
qed

lemma claim_snd: "snd (claim sch wallet ent ch) = (\<lambda>i. ent (i + 32))"
  by (simp add: claim_def claimReward_def randomBytes_def Let_def)

lemma claim_all_map:
  "fst (claim_all sch wallet ent chunks) =
     map (\<lambda>k. fst (claim sch wallet (\<lambda>i. ent (i + 32 * k)) (chunks ! k))) [0..<length chunks]"
proof (induction chunks arbitrary: ent)
  case Nil
  show ?case by simp
next
  case (Cons ch chs)
  have "map (\<lambda>k. fst (claim sch wallet (\<lambda>i. ent (i + 32 * k)) ((ch # chs) ! k))) [0..<length (ch # chs)]
      = fst (claim sch wallet ent ch)
        # map (\<lambda>k. fst (claim sch wallet (\<lambda>i. ent (i + 32 * Suc k)) (chs ! k))) [0..<length chs]"
    by (simp add: upt_conv_Cons map_Suc_upt [symmetric] del: upt_Suc)
  moreover have "(\<lambda>k. fst (claim sch wallet (\<lambda>i. ent (i + 32 * Suc k)) (chs ! k)))
      = (\<lambda>k. fst (claim sch wallet (\<lambda>i. ent (i + 32 * k + 32)) (chs ! k)))"
    by (simp add: add.commute add.left_commute)
  ultimately show ?case
    using Cons.IH [of "\<lambda>i. ent (i + 32)"] by (simp add: claim_snd)
qed

lemma concurrentClaim_eq:
  assumes "1 \<le> c"
  shows "concurrentClaim sch wallet ent mints c =
         Some (fst (claim_all sch wallet ent (chunk_list (nat c) mints)))"
  using loop_eq [OF assms, of sch wallet mints 0 "[]" ent]
  by (simp add: concurrentClaim_def)

lemma ceiling_nat_div: fixes n :: nat and c :: int assumes "1 \<le> c"
  shows "\<lceil>real n / real_of_int c\<rceil> = int ((n + nat c - 1) div nat c)"
proof -
  define m where "m = nat c"
  have c: "c = int m" and m: "0 < m" using assms by (simp_all add: m_def)
  define a where "a = n + m - 1"
  define q where "q = a div m"
  define r where "r = a mod m"
  have a: "a = q * m + r" by (simp add: q_def r_def)
  have r: "r < m" using m by (simp add: r_def)
  have na: "n + m = a + 1" using m by (simp add: a_def)
  have le: "n \<le> q * m" using a r na by linarith
  have ge: "q * m < n + m" using a r na by linarith
  have rm: "0 < real m" using m by simp
  have "\<lceil>real n / real m\<rceil> = int q"
  proof (rule ceiling_unique)
    have "real n \<le> real (q * m)" using le by (simp only: of_nat_le_iff)
    then have "real n \<le> real q * real m" by simp
    then have "real n / real m \<le> real q" using rm by (simp add: pos_divide_le_eq)
    then show "real n / real m \<le> of_int (int q)" by simp
    have "real (q * m) < real (n + m)" using ge by (simp only: of_nat_less_iff)
    then have "real q * real m < real n + real m" by simp
    then have "(real q - 1) * real m < real n" by (simp add: left_diff_distrib)
    then have "real q - 1 < real n / real m" using rm by (simp add: pos_less_divide_eq)
    then show "of_int (int q) - 1 < real n / real m" by simp
  qed
  then have "\<lceil>real n / real m\<rceil> = int ((n + m - 1) div m)" by (simp only: q_def a_def)
  moreover have "real_of_int c = real m" by (simp only: c of_int_of_nat_eq)
  ultimately show ?thesis by (simp only: m_def [symmetric])
qed

lemma chunk_idx_lt:
  fixes n k N :: nat
  assumes "0 < n" "k < (N + n - 1) div n"
  shows "k * n < N"
proof -
  from assms(2) have "Suc k \<le> (N + n - 1) div n" by simp
  then have "Suc k * n \<le> N + n - 1"
    using assms(1) by (simp only: less_eq_div_iff_mult_less_eq)
  then have "k * n + n \<le> N + n - 1" by simp
  then show ?thesis using assms(1) by linarith
qed

lemma chunk_list_nth_length:
  assumes "0 < n" "k < length (chunk_list n xs)"
  shows "length (chunk_list n xs ! k) = min n (length xs - k * n)"
  using assms by (simp add: chunk_list_nth)

text \<open>
  C6. For every mint list and every chunk size \<open>c \<ge> 1\<close>, \<open>concurrentClaim\<close> cuts the
  mints into consecutive chunks whose concatenation is the mint list, every chunk but
  the last of exactly \<open>c\<close> mints and the last of between 1 and \<open>c\<close> mints; each chunk is
  handed to its own call of \<open>claim\<close> (with the next 32 bytes of entropy as its nonce), in
  order; and 9 mints with chunk size 4 give chunks of sizes 4, 4 and 1.
\<close>

theorem concurrentClaim_chunks:
  assumes "1 \<le> c"
  shows "\<exists>chunks.
           concat chunks = mints
         \<and> (\<forall>k. Suc k < length chunks \<longrightarrow> int (length (chunks ! k)) = c)
         \<and> (\<forall>k. Suc k = length chunks \<longrightarrow>
                0 < length (chunks ! k) \<and> int (length (chunks ! k)) \<le> c)
         \<and> concurrentClaim sch wallet ent mints c =
             Some (map (\<lambda>k. fst (claim sch wallet (\<lambda>i. ent (i + 32 * k)) (chunks ! k)))
                     [0..<length chunks])
         \<and> (length mints = 9 \<and> c = 4 \<longrightarrow> map length chunks = [4, 4, 1])"
proof -
  define n where "n = nat c"
  have n: "0 < n" and c: "c = int n" using assms by (simp_all add: n_def)
  define chunks where "chunks = chunk_list n mints"
  have len: "length chunks = (length mints + n - 1) div n"
    unfolding chunks_def by (rule chunk_list_length [OF n])
  have nth: "length (chunks ! k) = min n (length mints - k * n)" if "k < length chunks" for k
    using that unfolding chunks_def by (rule chunk_list_nth_length [OF n])
  have p1: "concat chunks = mints"
    unfolding chunks_def by (rule chunk_list_concat [OF n])
  have p2: "\<forall>k. Suc k < length chunks \<longrightarrow> int (length (chunks ! k)) = c"
  proof (intro allI impI)
    fix k assume k: "Suc k < length chunks"
    then have "Suc k * n < length mints" unfolding len by (rule chunk_idx_lt [OF n])
    then have "n \<le> length mints - k * n" by simp
    moreover have "k < length chunks" using k by simp
    ultimately show "int (length (chunks ! k)) = c" by (simp add: nth c)
  qed
  have p3: "\<forall>k. Suc k = length chunks \<longrightarrow>
      0 < length (chunks ! k) \<and> int (length (chunks ! k)) \<le> c"
  proof (intro allI impI)
    fix k assume k: "Suc k = length chunks"
    then have kl: "k < length chunks" by simp
    then have "k * n < length mints" unfolding len by (rule chunk_idx_lt [OF n])
    then show "0 < length (chunks ! k) \<and> int (length (chunks ! k)) \<le> c"
      using n by (simp add: nth [OF kl] c)
  qed
  have p4: "concurrentClaim sch wallet ent mints c =
      Some (map (\<lambda>k. fst (claim sch wallet (\<lambda>i. ent (i + 32 * k)) (chunks ! k)))
              [0..<length chunks])"
    unfolding chunks_def n_def
    by (simp only: concurrentClaim_eq [OF assms] claim_all_map)
  have p5: "length mints = 9 \<and> c = 4 \<longrightarrow> map length chunks = [4, 4, 1]"
  proof
    assume a: "length mints = 9 \<and> c = 4"
    then have n4: "n = 4" by (simp add: n_def)
    have l3: "length chunks = 3" using a by (simp add: len n4)
    have "map length chunks = map (\<lambda>k. length (chunks ! k)) [0..<length chunks]"
      by (rule nth_equalityI) simp_all
    also have "\<dots> = [length (chunks ! 0), length (chunks ! 1), length (chunks ! 2)]"
      by (simp add: l3 eval_nat_numeral)
    also have "\<dots> = [4, 4, 1]" using a by (simp add: nth l3 n4)
    finally show "map length chunks = [4, 4, 1]" .
  qed
  show ?thesis by (intro exI [of _ chunks] conjI p1 p2 p3 p4 p5)
qed

theorem concurrentClaim_chunks_witness:
  "\<exists>chunks. concat chunks = nine_mints \<and> map length chunks = [4, 4, 1]
     \<and> concurrentClaim sample_scheme sample_wallet sample_entropy nine_mints 4 =
         Some (map (\<lambda>k. fst (claim sample_scheme sample_wallet (\<lambda>i. sample_entropy (i + 32 * k)) (chunks ! k)))
                 [0..<length chunks])"
proof -
  have "(1::int) \<le> 4" by simp
  from concurrentClaim_chunks [OF this, of nine_mints sample_scheme sample_wallet sample_entropy]
  obtain chunks where h:
    "concat chunks = nine_mints
     \<and> (\<forall>k. Suc k < length chunks \<longrightarrow> int (length (chunks ! k)) = 4)
     \<and> (\<forall>k. Suc k = length chunks \<longrightarrow>
            0 < length (chunks ! k) \<and> int (length (chunks ! k)) \<le> 4)
     \<and> concurrentClaim sample_scheme sample_wallet sample_entropy nine_mints 4 =
         Some (map (\<lambda>k. fst (claim sample_scheme sample_wallet (\<lambda>i. sample_entropy (i + 32 * k)) (chunks ! k)))
                 [0..<length chunks])
     \<and> (length nine_mints = 9 \<and> (4::int) = 4 \<longrightarrow> map length chunks = [4, 4, 1])" ..
  from h have a: "concat chunks = nine_mints" by (elim conjE)
  from h have b: "concurrentClaim sample_scheme sample_wallet sample_entropy nine_mints 4 =
         Some (map (\<lambda>k. fst (claim sample_scheme sample_wallet (\<lambda>i. sample_entropy (i + 32 * k)) (chunks ! k)))
                 [0..<length chunks])" by (elim conjE)
  from h have c: "length nine_mints = 9 \<and> (4::int) = 4 \<longrightarrow> map length chunks = [4, 4, 1]"
    by (elim conjE)
  have "length nine_mints = 9" by (simp add: nine_mints_def)
  with c have "map length chunks = [4, 4, 1]" by simp
  with a b show ?thesis by (intro exI [of _ chunks] conjI)
qed

text \<open>
  C10. The chunk loop of \<open>concurrentClaim\<close> ends for every mint list exactly when
  \<open>chunkSize \<ge> 1\<close>: with \<open>chunkSize \<le> 0\<close> and a mint list that is not empty it never
  ends. When \<open>chunkSize \<ge> 1\<close> it makes \<open>ceil (N / chunkSize)\<close> chunks of \<open>N\<close> mints.
\<close>

theorem concurrentClaim_terminates:
  "((\<forall>ms. concurrentClaim sch wallet ent ms c \<noteq> None) \<longleftrightarrow> 1 \<le> c)
   \<and> (1 \<le> c \<longrightarrow>
        (\<exists>promises. concurrentClaim sch wallet ent mints c = Some promises
           \<and> int (length promises) = \<lceil>real (length mints) / real_of_int c\<rceil>))
   \<and> (c \<le> 0 \<and> mints \<noteq> [] \<longrightarrow> concurrentClaim sch wallet ent mints c = None)"
proof (intro conjI impI)
  have none: "concurrentClaim sch wallet ent ms c = None" if "c \<le> 0" "ms \<noteq> []" for ms
  proof -
    have "0 < int (length ms)" using that(2) by simp
    from loop_None [OF that(1) this] show ?thesis by (simp add: concurrentClaim_def)
  qed
  show "(\<forall>ms. concurrentClaim sch wallet ent ms c \<noteq> None) \<longleftrightarrow> 1 \<le> c"
  proof
    assume all: "\<forall>ms. concurrentClaim sch wallet ent ms c \<noteq> None"
    show "1 \<le> c"
    proof (rule ccontr)
      assume "\<not> 1 \<le> c"
      then have "c \<le> 0" by simp
      from none [OF this, of "[PublicKey []]"] all show False by simp
    qed
  next
    assume "1 \<le> c"
    then show "\<forall>ms. concurrentClaim sch wallet ent ms c \<noteq> None"
      by (simp add: concurrentClaim_eq)
  qed
  show "concurrentClaim sch wallet ent mints c = None" if "c \<le> 0 \<and> mints \<noteq> []"
    using that none by simp
  show "\<exists>promises. concurrentClaim sch wallet ent mints c = Some promises
           \<and> int (length promises) = \<lceil>real (length mints) / real_of_int c\<rceil>" if c: "1 \<le> c"
  proof -
    have n: "0 < nat c" using c by simp
    have "length (fst (claim_all sch wallet ent (chunk_list (nat c) mints)))
        = length (chunk_list (nat c) mints)"
      by (simp add: claim_all_map)
    then have "int (length (fst (claim_all sch wallet ent (chunk_list (nat c) mints))))
        = \<lceil>real (length mints) / real_of_int c\<rceil>"
      by (simp only: chunk_list_length [OF n] ceiling_nat_div [OF c])
    then show ?thesis by (simp only: concurrentClaim_eq [OF c]) blast
  qed
qed

theorem concurrentClaim_terminates_witness:
  "concurrentClaim sample_scheme sample_wallet sample_entropy nine_mints 0 = None
   \<and> (\<exists>promises. concurrentClaim sample_scheme sample_wallet sample_entropy nine_mints 4 = Some promises \<and> length promises = 3)"
proof
  have "(0::int) \<le> 0 \<and> nine_mints \<noteq> []" by (simp add: nine_mints_def)
  with concurrentClaim_terminates [of sample_scheme sample_wallet sample_entropy 0 nine_mints]
  show "concurrentClaim sample_scheme sample_wallet sample_entropy nine_mints 0 = None" by blast
  have "(1::int) \<le> 4" by simp
  with concurrentClaim_terminates [of sample_scheme sample_wallet sample_entropy 4 nine_mints]
  obtain promises where p: "concurrentClaim sample_scheme sample_wallet sample_entropy nine_mints 4 = Some promises"
    and l: "int (length promises) = \<lceil>real (length nine_mints) / real_of_int 4\<rceil>" by blast
  have "\<lceil>real (length nine_mints) / real_of_int 4\<rceil> = 3" by (simp add: nine_mints_def)
  with l have "length promises = 3" by simp
  with p show "\<exists>promises. concurrentClaim sample_scheme sample_wallet sample_entropy nine_mints 4 = Some promises \<and> length promises = 3"
    by blast
qed

section \<open>The decoders\<close>

lemma account_at_same: "account_at acc d acc = Some d"
  by (simp add: account_at_def)

lemma sint_eq_0_iff: "sint (w :: byte) = 0 \<longleftrightarrow> w = 0"
  by (simp add: signed_eq_0_iff)

lemma andThen_Inr: "andThen (Inr x) f = f x"
  by (simp add: andThen_def)

lemma andThen_Inl: "andThen (Inl e) f = Inl e"
  by (simp add: andThen_def)

lemma length_slice: "length (slice d a b) = min (b - a) (length d - a)"
  by (simp add: slice_def)

lemma parseTokenRecord_eq:
  assumes "connection acc = Some d"
  shows "parseTokenRecord connection acc =
    (if length d < 4 then Inl RangeError
     else if d ! 3 = 0
     then (if length d < 5 then Inl RangeError
           else if d ! 4 = 0 then Inr \<lparr>state = sint (d ! 2), delegate = None, delegateRole = None\<rparr>
           else if length d < 39 then Inl RangeError
           else Inr \<lparr>state = sint (d ! 2), delegate = Some (bs58_encode (slice d 5 37)),
                     delegateRole = Some (sint (d ! 38))\<rparr>)
     else (if length d < 13 then Inl RangeError
           else if d ! 12 = 0 then Inr \<lparr>state = sint (d ! 2), delegate = None, delegateRole = None\<rparr>
           else if length d < 47 then Inl RangeError
           else Inr \<lparr>state = sint (d ! 2), delegate = Some (bs58_encode (slice d 13 45)),
                     delegateRole = Some (sint (d ! 46))\<rparr>))"
  using assms by (simp add: parseTokenRecord_def getAccountInfo_def andThen_Inr andThen_Inl
      readInt8_def sint_eq_0_iff Let_def)

lemma parseConfig_eq:
  assumes "connection acc = Some d"
  shows "parseConfig connection acc =
    (if length d < 64 then Inl InvalidPublicKeyInput
     else if length d < 84 then Inl RangeError
     else Inr \<lparr>authority = PublicKey (slice d 0 32), creator = PublicKey (slice d 32 64),
               claimable_from = projr (readInt32LE d 64),
               accumulated_reward = projr (readInt32LE d 68),
               initial_reward = projr (readInt32LE d 72),
               accumulation_duration = projr (readInt32LE d 76),
               generation_duration = projr (readInt32LE d 80)\<rparr>)"
  using assms
  by (auto simp add: parseConfig_def getAccountInfo_def andThen_Inr andThen_Inl
      new_PublicKey_encode length_slice readInt32LE_def min_def)

lemma parseNft_eq:
  assumes "connection acc = Some d"
  shows "parseNft connection acc =
    (if length d < 12 then Inl RangeError
     else Inr \<lparr>claimed_amount = projr (readInt32LE d 0), total_amount = projr (readInt32LE d 4),
               last_claimed_at = projr (readInt32LE d 8)\<rparr>)"
  using assms
  by (simp add: parseNft_def getAccountInfo_def andThen_Inr andThen_Inl readInt32LE_def)

lemma parseClaim_eq:
  assumes "connection acc = Some d"
  shows "parseClaim connection acc =
    (if length d < 8 then Inl RangeError
     else if length d < 40 then Inl InvalidPublicKeyInput
     else Inr \<lparr>generation = projr (readInt32LE d 0), amount = projr (readInt32LE d 4),
               owner = PublicKey (slice d 8 40),
               bnb_chain_wallet_address = ''0x'' @ toString_utf8 d 40\<rparr>)"
  using assms
  by (auto simp add: parseClaim_def getAccountInfo_def andThen_Inr andThen_Inl
      new_PublicKey_encode length_slice readInt32LE_def min_def)

lemma parseTokenRecord_None:
  "connection acc = None \<Longrightarrow> parseTokenRecord connection acc = Inl UninitializedAccount"
  by (simp add: parseTokenRecord_def getAccountInfo_def andThen_Inl)

text \<open>
  C9. Every record that \<open>parseTokenRecord\<close> returns has \<open>delegateRole\<close> null exactly
  when \<open>delegate\<close> is null.
\<close>

theorem parseTokenRecord_role_iff_delegate:
  assumes "parseTokenRecord connection acc = Inr r"
  shows "delegateRole r = None \<longleftrightarrow> delegate r = None"
proof (cases "connection acc")
  case None
  with assms show ?thesis by (simp add: parseTokenRecord_None)
next
  case (Some d)
  from assms show ?thesis
    unfolding parseTokenRecord_eq [of connection acc d, OF Some] by (auto split: if_splits)
qed

theorem parseTokenRecord_role_iff_delegate_witness:
  "\<exists>r. parseTokenRecord (account_at GAIMIN_PFP sample_token_record) GAIMIN_PFP = Inr r
       \<and> delegateRole r = Some Staking \<and> (\<exists>text. delegate r = Some text)"
proof -
  define r where "r = \<lparr>state = 1, delegate = Some (bs58_encode (slice sample_token_record 5 37)),
                        delegateRole = Some 3\<rparr>"
  have p: "parseTokenRecord (account_at GAIMIN_PFP sample_token_record) GAIMIN_PFP = Inr r"
    by (simp add: parseTokenRecord_eq [of _ _ sample_token_record] account_at_same)
      (simp add: sample_token_record_def r_def nth_append)
  have "delegateRole r = Some Staking" by (simp add: r_def Staking_def)
  moreover from this parseTokenRecord_role_iff_delegate [OF p]
  have "\<exists>text. delegate r = Some text" by auto
  ultimately show ?thesis using p by blast
qed

text \<open>
  C4. \<open>parseTokenRecord\<close> reads the state at offset 2 and the discriminant of the rule-set
  revision at offset 3. When the discriminant is zero the delegate-presence byte is 1 byte
  on (offset 4), otherwise 9 bytes on (offset 12); the delegate is the 32 bytes after the
  presence byte and the role the byte 34 after it. A buffer with state 1, no rule-set
  revision and a delegate present with role byte 3 decodes to
  \<open>{state: Locked, delegate: the 32 bytes at offset 5, delegateRole: Staking}\<close>.
\<close>

theorem parseTokenRecord_layout:
  "(connection acc = Some d \<and> parseTokenRecord connection acc = Inr r \<longrightarrow>
      state r = sint (d ! 2)
      \<and> (d ! 3 = 0 \<longrightarrow>
           (delegate r = None \<longleftrightarrow> d ! 4 = 0)
           \<and> (d ! 4 \<noteq> 0 \<longrightarrow> delegate r = Some (bs58_encode (slice d 5 37))
                             \<and> delegateRole r = Some (sint (d ! 38))))
      \<and> (d ! 3 \<noteq> 0 \<longrightarrow>
           (delegate r = None \<longleftrightarrow> d ! 12 = 0)
           \<and> (d ! 12 \<noteq> 0 \<longrightarrow> delegate r = Some (bs58_encode (slice d 13 45))
                              \<and> delegateRole r = Some (sint (d ! 46)))))
   \<and> (length addr = 32 \<and> present \<noteq> 0
        \<and> connection' acc' = Some ([key, bump, 1, 0, present] @ addr @ [tag, 3] @ rest) \<longrightarrow>
      parseTokenRecord connection' acc' =
        Inr \<lparr>state = Locked, delegate = Some (bs58_encode addr), delegateRole = Some Staking\<rparr>)"
proof (intro conjI impI)
  assume a: "connection acc = Some d \<and> parseTokenRecord connection acc = Inr r"
  then have d: "connection acc = Some d" and p: "parseTokenRecord connection acc = Inr r"
    by simp_all
  from p show "state r = sint (d ! 2)"
    unfolding parseTokenRecord_eq [of connection acc d, OF d] by (auto split: if_splits)
  {
    assume z: "d ! 3 = 0"
    from p z show "delegate r = None \<longleftrightarrow> d ! 4 = 0"
      unfolding parseTokenRecord_eq [of connection acc d, OF d] by (auto split: if_splits)
    assume "d ! 4 \<noteq> 0"
    with p z show "delegate r = Some (bs58_encode (slice d 5 37))"
      and "delegateRole r = Some (sint (d ! 38))"
      unfolding parseTokenRecord_eq [of connection acc d, OF d] by (auto split: if_splits)
  }
  {
    assume z: "d ! 3 \<noteq> 0"
    from p z show "delegate r = None \<longleftrightarrow> d ! 12 = 0"
      unfolding parseTokenRecord_eq [of connection acc d, OF d] by (auto split: if_splits)
    assume "d ! 12 \<noteq> 0"
    with p z show "delegate r = Some (bs58_encode (slice d 13 45))"
      and "delegateRole r = Some (sint (d ! 46))"
      unfolding parseTokenRecord_eq [of connection acc d, OF d] by (auto split: if_splits)
  }
next
  assume a: "length addr = 32 \<and> present \<noteq> 0
        \<and> connection' acc' = Some ([key, bump, 1, 0, present] @ addr @ [tag, 3] @ rest)"
  define d where "d = [key, bump, 1, 0, present] @ addr @ [tag, 3] @ rest"
  have len: "length d = 39 + length rest" using a by (simp add: d_def)
  have n2: "d ! 2 = 1" and n3: "d ! 3 = 0" and n4: "d ! 4 = present" by (simp_all add: d_def)
  have n38: "d ! 38 = 3" using a by (simp add: d_def nth_append)
  have sl: "slice d 5 37 = addr" using a by (simp add: d_def slice_def)
  from a have c: "connection' acc' = Some d" by (simp add: d_def)
  show "parseTokenRecord connection' acc' =
        Inr \<lparr>state = Locked, delegate = Some (bs58_encode addr), delegateRole = Some Staking\<rparr>"
    unfolding parseTokenRecord_eq [of connection' acc' d, OF c] using a
    by (simp add: len n2 n3 n4 n38 sl Locked_def Staking_def)
qed

theorem parseTokenRecord_layout_witness:
  "parseTokenRecord (account_at GAIMIN_PFP sample_token_record) GAIMIN_PFP =
     Inr \<lparr>state = Locked, delegate = Some (bs58_encode (map of_nat [1..<33])),
          delegateRole = Some Staking\<rparr>"
proof -
  have "length (map of_nat [1..<33] :: Buffer) = 32 \<and> (1 :: byte) \<noteq> 0
      \<and> (account_at GAIMIN_PFP sample_token_record) GAIMIN_PFP =
          Some ([4, 255, 1, 0, 1] @ map of_nat [1..<33] @ [1, 3] @ [0])"
    by (simp add: sample_token_record_def account_at_same)
  with parseTokenRecord_layout [of "account_at GAIMIN_PFP sample_token_record" GAIMIN_PFP
      sample_token_record undefined "map of_nat [1..<33]" 1
      "account_at GAIMIN_PFP sample_token_record" GAIMIN_PFP 4 255 1 "[0]"]
  show ?thesis by blast
qed

text \<open>
  C3 (amended). Each decoder rejects every buffer shorter than the least length it can
  decode, and returns no partial record: 84 bytes for a \<open>ConfigRecord\<close> (two 32-byte keys,
  then five 4-byte integers at offsets 64 to 80), 12 for an \<open>NftRecord\<close>, 40 for a
  \<open>ClaimRecord\<close>, 5 for a token record (39 when it returns a delegate). From these lengths
  on, the first three decode every buffer. So a 79-byte buffer is rejected as a
  \<open>ConfigRecord\<close>, and so is one of 80 bytes: the minimum is 84, not 80.
\<close>

theorem short_buffer_rejected:
  assumes "connection acc = Some d"
  shows "(length d < 84 \<longrightarrow> parseConfig connection acc = Inl RangeError
                           \<or> parseConfig connection acc = Inl InvalidPublicKeyInput)
       \<and> (84 \<le> length d \<longrightarrow> (\<exists>r. parseConfig connection acc = Inr r))
       \<and> (length d < 12 \<longrightarrow> parseNft connection acc = Inl RangeError)
       \<and> (12 \<le> length d \<longrightarrow> (\<exists>r. parseNft connection acc = Inr r))
       \<and> (length d < 40 \<longrightarrow> parseClaim connection acc = Inl RangeError
                           \<or> parseClaim connection acc = Inl InvalidPublicKeyInput)
       \<and> (40 \<le> length d \<longrightarrow> (\<exists>r. parseClaim connection acc = Inr r))
       \<and> (length d < 5 \<longrightarrow> parseTokenRecord connection acc = Inl RangeError)
       \<and> (5 \<le> length d \<and> d ! 3 = 0 \<and> d ! 4 = 0 \<longrightarrow>
            (\<exists>r. parseTokenRecord connection acc = Inr r))
       \<and> (\<forall>r. parseTokenRecord connection acc = Inr r \<longrightarrow>
              5 \<le> length d \<and> (delegate r \<noteq> None \<longrightarrow> 39 \<le> length d))"
proof (intro conjI impI allI)
  show "parseConfig connection acc = Inl RangeError
      \<or> parseConfig connection acc = Inl InvalidPublicKeyInput" if "length d < 84"
    using that by (simp add: parseConfig_eq [of connection acc d, OF assms])
  show "\<exists>r. parseConfig connection acc = Inr r" if "84 \<le> length d"
    using that by (simp add: parseConfig_eq [of connection acc d, OF assms])
  show "parseNft connection acc = Inl RangeError" if "length d < 12"
    using that by (simp add: parseNft_eq [of connection acc d, OF assms])
  show "\<exists>r. parseNft connection acc = Inr r" if "12 \<le> length d"
    using that by (simp add: parseNft_eq [of connection acc d, OF assms])
  show "parseClaim connection acc = Inl RangeError
      \<or> parseClaim connection acc = Inl InvalidPublicKeyInput" if "length d < 40"
    using that by (simp add: parseClaim_eq [of connection acc d, OF assms])
  show "\<exists>r. parseClaim connection acc = Inr r" if "40 \<le> length d"
    using that by (simp add: parseClaim_eq [of connection acc d, OF assms])
  show "parseTokenRecord connection acc = Inl RangeError" if "length d < 5"
    using that by (simp add: parseTokenRecord_eq [of connection acc d, OF assms])
  show "\<exists>r. parseTokenRecord connection acc = Inr r" if "5 \<le> length d \<and> d ! 3 = 0 \<and> d ! 4 = 0"
    using that by (simp add: parseTokenRecord_eq [of connection acc d, OF assms])
  fix r assume p: "parseTokenRecord connection acc = Inr r"
  from p show "5 \<le> length d"
    unfolding parseTokenRecord_eq [of connection acc d, OF assms] by (auto split: if_splits)
  assume "delegate r \<noteq> None"
  with p show "39 \<le> length d"
    unfolding parseTokenRecord_eq [of connection acc d, OF assms] by (auto split: if_splits)
qed

theorem short_buffer_rejected_witness:
  "isl (parseConfig (account_at GAIMIN_PFP (replicate 79 7)) GAIMIN_PFP)
   \<and> (\<exists>r. parseConfig (account_at GAIMIN_PFP (replicate 84 7)) GAIMIN_PFP = Inr r)"
proof
  have c: "account_at GAIMIN_PFP (replicate 79 (7 :: byte)) GAIMIN_PFP = Some (replicate 79 7)"
    by (rule account_at_same)
  have "length (replicate 79 (7 :: byte)) < 84" by simp
  with short_buffer_rejected [of "account_at GAIMIN_PFP (replicate 79 7)" GAIMIN_PFP
      "replicate 79 7", OF c]
  have "parseConfig (account_at GAIMIN_PFP (replicate 79 7)) GAIMIN_PFP = Inl RangeError
      \<or> parseConfig (account_at GAIMIN_PFP (replicate 79 7)) GAIMIN_PFP = Inl InvalidPublicKeyInput"
    by blast
  then show "isl (parseConfig (account_at GAIMIN_PFP (replicate 79 7)) GAIMIN_PFP)" by auto
  have c': "account_at GAIMIN_PFP (replicate 84 (7 :: byte)) GAIMIN_PFP = Some (replicate 84 7)"
    by (rule account_at_same)
  have "84 \<le> length (replicate 84 (7 :: byte))" by simp
  with short_buffer_rejected [of "account_at GAIMIN_PFP (replicate 84 7)" GAIMIN_PFP
      "replicate 84 7", OF c']
  show "\<exists>r. parseConfig (account_at GAIMIN_PFP (replicate 84 7)) GAIMIN_PFP = Inr r" by blast
qed

text \<open>
  A buffer of 80 bytes is rejected as a \<open>ConfigRecord\<close>: the read of
  \<open>generation_duration\<close> at offset 80 needs 84 bytes.
\<close>

theorem config_minimum_80_counterexample:
  "parseConfig (account_at GAIMIN_PFP (replicate 80 7)) GAIMIN_PFP = Inl RangeError"
  by (simp add: parseConfig_eq [of _ _ "replicate 80 7"] account_at_same)

section \<open>Address derivation\<close>

lemma bump_search_taken:
  "\<not> is_curve_point sch (candidate sch pid seeds bump)
   \<Longrightarrow> bump_search sch pid seeds bump
       = Inr (PublicKey (candidate sch pid seeds bump), bump)"
  by (cases bump) simp_all

lemma bump_search_passed:
  "is_curve_point sch (candidate sch pid seeds (Suc bump))
   \<Longrightarrow> bump_search sch pid seeds (Suc bump) = bump_search sch pid seeds bump"
  by simp

lemma derives_bump_search:
  "derives sch pid seeds bump r \<Longrightarrow> bump_search sch pid seeds bump = Inr r"
  by (induction rule: derives.induct) (simp_all add: bump_search_taken)

lemma bump_search_derives:
  "bump_search sch pid seeds bump = Inr r \<Longrightarrow> derives sch pid seeds bump r"
proof (induction bump)
  case 0
  then show ?case by (auto split: if_splits intro: derives.taken)
next
  case (Suc bump)
  show ?case
  proof (cases "is_curve_point sch (candidate sch pid seeds (Suc bump))")
    case True
    with Suc show ?thesis by (auto intro: derives.passed)
  next
    case False
    with Suc.prems show ?thesis by (auto intro: derives.taken)
  qed
qed

lemma bump_search_error:
  "bump_search sch pid seeds bump = Inl e \<Longrightarrow> e = DerivationError"
  by (induction bump) (auto split: if_splits)

lemma findProgramAddressSync_error:
  "findProgramAddressSync sch seeds pid = Inl e \<Longrightarrow> e = DerivationError"
  unfolding findProgramAddressSync_def by (rule bump_search_error)

text \<open>
  C5. Each named derivation hands \<open>findProgramAddressSync\<close> exactly its literal seed list,
  byte for byte: \<open>"config"\<close> alone for the config address (nothing in it varies, so there
  is one per program id); \<open>"nft"\<close>, mint for the stake record; \<open>"claim"\<close>, wallet, nonce for
  the claim record; \<open>"metadata"\<close>, metadata program id, mint for the metadata address, with
  \<open>"edition"\<close> appended for the master edition and \<open>"token_record"\<close>, token appended for
  the token record.
\<close>

theorem named_derivation_seeds:
  "findConfigPda sch =
     findProgramAddressSync sch [[99, 111, 110, 102, 105, 103]] GAIMIN_PFP
   \<and> findNftPda sch mint =
     findProgramAddressSync sch [[110, 102, 116], toBuffer mint] GAIMIN_PFP
   \<and> findClaimPda sch wallet nonce =
     findProgramAddressSync sch [[99, 108, 97, 105, 109], toBuffer wallet, nonce] GAIMIN_PFP
   \<and> findMetadataAccountPda sch mint =
     findProgramAddressSync sch
       [[109, 101, 116, 97, 100, 97, 116, 97], toBuffer MPL_TOKEN_METADATA, toBuffer mint]
       MPL_TOKEN_METADATA
   \<and> findMasterEditionAccountPda sch mint =
     findProgramAddressSync sch
       [[109, 101, 116, 97, 100, 97, 116, 97], toBuffer MPL_TOKEN_METADATA, toBuffer mint,
        [101, 100, 105, 116, 105, 111, 110]]
       MPL_TOKEN_METADATA
   \<and> findTokenRecordPda sch mint token =
     findProgramAddressSync sch
       [[109, 101, 116, 97, 100, 97, 116, 97], toBuffer MPL_TOKEN_METADATA, toBuffer mint,
        [116, 111, 107, 101, 110, 95, 114, 101, 99, 111, 114, 100], toBuffer token]
       MPL_TOKEN_METADATA
   \<and> Buffer_from ''config'' = [99, 111, 110, 102, 105, 103]
   \<and> Buffer_from ''nft'' = [110, 102, 116]
   \<and> Buffer_from ''claim'' = [99, 108, 97, 105, 109]
   \<and> Buffer_from ''metadata'' = [109, 101, 116, 97, 100, 97, 116, 97]
   \<and> Buffer_from ''edition'' = [101, 100, 105, 116, 105, 111, 110]
   \<and> Buffer_from ''token_record'' = [116, 111, 107, 101, 110, 95, 114, 101, 99, 111, 114, 100]"
  by (simp add: findConfigPda_def findNftPda_def findClaimPda_def findMetadataAccountPda_def
      findMasterEditionAccountPda_def findTokenRecordPda_def Buffer_from_def encode_utf8_def)

text \<open>
  C7. Address derivation is deterministic: any two runs of the bump search on the same
  program id and seeds return the same (address, bump) pair, the one that
  \<open>findProgramAddressSync\<close> computes; so do two calls of \<open>findClaimPda\<close> on the same wallet
  and nonce.
\<close>

theorem derivation_deterministic:
  assumes "derives sch pid seeds 255 r" and "derives sch pid seeds 255 r'"
  shows "r = r' \<and> findProgramAddressSync sch seeds pid = Inr r
       \<and> (pid = GAIMIN_PFP \<and> seeds = [Buffer_from ''claim'', toBuffer wallet, nonce]
            \<longrightarrow> findClaimPda sch wallet nonce = Inr r)"
proof -
  from assms(1) have a: "bump_search sch pid seeds 255 = Inr r" by (rule derives_bump_search)
  from assms(2) have b: "bump_search sch pid seeds 255 = Inr r'" by (rule derives_bump_search)
  from a b have "r = r'" by simp
  moreover from a have f: "findProgramAddressSync sch seeds pid = Inr r"
    by (simp add: findProgramAddressSync_def)
  moreover from f have "pid = GAIMIN_PFP \<and> seeds = [Buffer_from ''claim'', toBuffer wallet, nonce]
      \<longrightarrow> findClaimPda sch wallet nonce = Inr r"
    by (auto simp add: findClaimPda_def)
  ultimately show ?thesis by simp
qed

lemma skipping_candidate_6:
  "candidate skipping_scheme GAIMIN_PFP [Buffer_from ''config''] bump ! 6 = of_nat bump"
  by (simp add: candidate_def skipping_scheme_def Buffer_from_def encode_utf8_def)

lemma skipping_curve: "is_curve_point skipping_scheme h \<longleftrightarrow> 253 < unat (h ! 6)"
  by (simp add: skipping_scheme_def)

theorem derivation_deterministic_witness:
  "findProgramAddressSync skipping_scheme [Buffer_from ''config''] GAIMIN_PFP =
     Inr (PublicKey (candidate skipping_scheme GAIMIN_PFP [Buffer_from ''config''] 253), 253)"
proof -
  have c255: "is_curve_point skipping_scheme
      (candidate skipping_scheme GAIMIN_PFP [Buffer_from ''config''] (Suc 254))"
    by (simp add: skipping_curve skipping_candidate_6)
  have c254: "is_curve_point skipping_scheme
      (candidate skipping_scheme GAIMIN_PFP [Buffer_from ''config''] (Suc 253))"
    by (simp add: skipping_curve skipping_candidate_6)
  have c253: "\<not> is_curve_point skipping_scheme
      (candidate skipping_scheme GAIMIN_PFP [Buffer_from ''config''] 253)"
    by (simp add: skipping_curve skipping_candidate_6)
  have "derives skipping_scheme GAIMIN_PFP [Buffer_from ''config''] (Suc (Suc 253))
      (PublicKey (candidate skipping_scheme GAIMIN_PFP [Buffer_from ''config''] 253), 253)"
    using c254 c255 by (intro derives.passed derives.taken c253) simp_all
  then have d: "derives skipping_scheme GAIMIN_PFP [Buffer_from ''config''] 255
      (PublicKey (candidate skipping_scheme GAIMIN_PFP [Buffer_from ''config''] 253), 253)"
    by simp
  from derivation_deterministic [OF d d] show ?thesis by simp
qed

section \<open>Instructions and the composite claim\<close>

lemma andThen_eq_Inr:
  "andThen m f = Inr y \<longleftrightarrow> (\<exists>x. m = Inr x \<and> f x = Inr y)"
  by (cases m) (simp_all add: andThen_def)

lemma andThen_eq_Inl:
  "andThen m f = Inl e \<longleftrightarrow> m = Inl e \<or> (\<exists>x. m = Inr x \<and> f x = Inl e)"
  by (cases m) (simp_all add: andThen_def)

lemma mapE_Inr: "mapE f xs = Inr ys \<longleftrightarrow> map f xs = map Inr ys"
proof (induction xs arbitrary: ys)
  case Nil
  show ?case by auto
next
  case (Cons x xs)
  show ?case
  proof (cases ys)
    case Nil
    then show ?thesis by (auto simp: andThen_eq_Inr)
  next
    case (Cons y ys')
    then show ?thesis using Cons.IH [of ys'] by (auto simp: andThen_eq_Inr)
  qed
qed

lemma mapE_Inl: "mapE f xs = Inl e \<Longrightarrow> \<exists>x\<in>set xs. f x = Inl e"
  by (induction xs) (auto simp: andThen_eq_Inl)

lemma pda_errors:
  "findConfigPda sch = Inl e \<Longrightarrow> e = DerivationError"
  "findNftPda sch mint = Inl e \<Longrightarrow> e = DerivationError"
  "findClaimPda sch wallet seed = Inl e \<Longrightarrow> e = DerivationError"
  "findMetadataAccountPda sch mint = Inl e \<Longrightarrow> e = DerivationError"
  "findMasterEditionAccountPda sch mint = Inl e \<Longrightarrow> e = DerivationError"
  "findTokenAccountPda sch mint wallet = Inl e \<Longrightarrow> e = DerivationError"
  "findTokenRecordPda sch mint token = Inl e \<Longrightarrow> e = DerivationError"
  unfolding findConfigPda_def findNftPda_def findClaimPda_def findMetadataAccountPda_def
    findMasterEditionAccountPda_def findTokenAccountPda_def findTokenRecordPda_def
  by (erule findProgramAddressSync_error)+

lemma registerNftInstruction_error:
  "registerNftInstruction sch signer mint = Inl e \<Longrightarrow> e = DerivationError"
  unfolding registerNftInstruction_def
  by (auto simp: andThen_eq_Inl dest: pda_errors)

lemma createClaimInstruction_error:
  "createClaimInstruction sch wallet bnb seed = Inl e \<Longrightarrow> e = DerivationError"
  unfolding createClaimInstruction_def
  by (auto simp: andThen_eq_Inl dest: pda_errors)

lemma claimInstruction_error:
  "claimInstruction sch wallet mint seed = Inl e \<Longrightarrow> e = DerivationError"
  unfolding claimInstruction_def
  by (auto simp: andThen_eq_Inl dest: pda_errors)

lemma Uint8Array_of_uint: "Uint8Array_of (map uint bs) = bs"
  by (simp add: Uint8Array_of_def map_idI)

lemma createClaimInstruction_Inr:
  assumes "createClaimInstruction sch wallet bnb seed = Inr c"
  shows "\<exists>claim_pda. findClaimPda sch wallet seed = Inr claim_pda
           \<and> pubkey (keys c ! 1) = fst claim_pda
           \<and> data c = [3, of_nat (snd claim_pda)] @ seed @ encode_utf8 (drop 2 bnb)"
  using assms unfolding createClaimInstruction_def
  by (auto simp: andThen_eq_Inr Uint8Array_of_def CREATE_CLAIM_def map_idI)

lemma claimInstruction_Inr:
  assumes "claimInstruction sch wallet mint seed = Inr e"
  shows "\<exists>claim_pda. findClaimPda sch wallet seed = Inr claim_pda
           \<and> pubkey (keys e ! 4) = fst claim_pda \<and> hd (data e) = 4"
  using assms unfolding claimInstruction_def
  by (auto simp: andThen_eq_Inr Uint8Array_of_def CLAIM_def)

lemma registerNftInstruction_Inr:
  assumes "registerNftInstruction sch signer mint = Inr r"
  shows "data r = [2]"
  using assms unfolding registerNftInstruction_def
  by (auto simp: andThen_eq_Inr Uint8Array_of_def NFT_def)

lemma builders_total:
  assumes "\<forall>seeds pid. findProgramAddressSync sch seeds pid \<noteq> Inl DerivationError"
  shows "createClaimInstruction sch wallet bnb seed \<noteq> Inl e"
    and "registerNftInstruction sch wallet mint \<noteq> Inl e"
    and "claimInstruction sch wallet mint seed \<noteq> Inl e"
proof -
  have no: "findProgramAddressSync sch seeds pid \<noteq> Inl e'" for seeds pid e'
    using assms findProgramAddressSync_error [of sch seeds pid e'] by auto
  show "createClaimInstruction sch wallet bnb seed \<noteq> Inl e"
    unfolding createClaimInstruction_def findClaimPda_def findConfigPda_def
    by (auto simp: andThen_eq_Inl no)
  show "registerNftInstruction sch wallet mint \<noteq> Inl e"
    unfolding registerNftInstruction_def findMetadataAccountPda_def
      findMasterEditionAccountPda_def findNftPda_def findConfigPda_def
    by (auto simp: andThen_eq_Inl no)
  show "claimInstruction sch wallet mint seed \<noteq> Inl e"
    unfolding claimInstruction_def findNftPda_def findTokenAccountPda_def findConfigPda_def
      findTokenRecordPda_def findClaimPda_def
    by (auto simp: andThen_eq_Inl no)
qed

lemma randomBytes_length: "length (fst (randomBytes n ent)) = n"
  by (simp add: randomBytes_def)

text \<open>
  C1. For every payer, wallet-address string and mint list, \<open>claimReward\<close> draws one
  32-byte nonce and, unless an address derivation fails, hands over the sequence of one
  create-claim instruction, then one register-stake-record instruction per mint in input
  order, then one execute-claim instruction per mint in input order. The nonce goes to the
  create-claim builder and to every execute-claim builder, it is in the create-claim
  payload, and every execute-claim instruction names the claim address of the create-claim
  instruction. The sequence is produced whenever no derivation fails.
\<close>

theorem claimReward_sequence:
  "(fst (claimReward sch ent userPayer mints bnb) = Inl DerivationError
    \<or> (\<exists>c rs es.
          fst (claimReward sch ent userPayer mints bnb) =
            Inr \<lparr>payerKey = publicKey userPayer, instructions = c # rs @ es\<rparr>
        \<and> length rs = length mints \<and> length es = length mints
        \<and> createClaimInstruction sch (publicKey userPayer) bnb (fst (randomBytes 32 ent)) = Inr c
        \<and> hd (data c) = 3
        \<and> take 32 (drop 2 (data c)) = fst (randomBytes 32 ent)
        \<and> (\<forall>i<length mints.
              registerNftInstruction sch (publicKey userPayer) (mints ! i) = Inr (rs ! i)
            \<and> data (rs ! i) = [2]
            \<and> claimInstruction sch (publicKey userPayer) (mints ! i) (fst (randomBytes 32 ent))
                = Inr (es ! i)
            \<and> hd (data (es ! i)) = 4
            \<and> pubkey (keys (es ! i) ! 4) = pubkey (keys c ! 1))))
   \<and> length (fst (randomBytes 32 ent)) = 32
   \<and> snd (claimReward sch ent userPayer mints bnb) = (\<lambda>i. ent (i + 32))
   \<and> ((\<forall>seeds pid. findProgramAddressSync sch seeds pid \<noteq> Inl DerivationError)
        \<longrightarrow> fst (claimReward sch ent userPayer mints bnb) \<noteq> Inl DerivationError)"
proof (intro conjI impI)
  define seed where "seed = fst (randomBytes 32 ent)"
  define w where "w = publicKey userPayer"
  have seed_len: "length seed = 32" by (simp add: seed_def randomBytes_length)
  have unf: "fst (claimReward sch ent userPayer mints bnb) =
      andThen (createClaimInstruction sch w bnb seed) (\<lambda>c.
      andThen (mapE (registerNftInstruction sch w) mints) (\<lambda>rs.
      andThen (mapE (\<lambda>mint. claimInstruction sch w mint seed) mints) (\<lambda>es.
        Inr \<lparr>payerKey = w, instructions = c # rs @ es\<rparr>)))"
    by (simp add: claimReward_def Let_def seed_def w_def)
  show "length (fst (randomBytes 32 ent)) = 32" by (rule randomBytes_length)
  show "snd (claimReward sch ent userPayer mints bnb) = (\<lambda>i. ent (i + 32))"
    by (simp add: claimReward_def Let_def randomBytes_def)
  show "fst (claimReward sch ent userPayer mints bnb) \<noteq> Inl DerivationError"
    if tot: "\<forall>seeds pid. findProgramAddressSync sch seeds pid \<noteq> Inl DerivationError"
  proof
    assume "fst (claimReward sch ent userPayer mints bnb) = Inl DerivationError"
    then consider "createClaimInstruction sch w bnb seed = Inl DerivationError"
      | "mapE (registerNftInstruction sch w) mints = Inl DerivationError"
      | "mapE (\<lambda>mint. claimInstruction sch w mint seed) mints = Inl DerivationError"
      unfolding unf by (auto simp: andThen_eq_Inl)
    then show False
    proof cases
      case 1
      with builders_total(1) [OF tot] show False by blast
    next
      case 2
      from mapE_Inl [OF this] builders_total(2) [OF tot] show False by blast
    next
      case 3
      from mapE_Inl [OF this] builders_total(3) [OF tot] show False by blast
    qed
  qed
  show "fst (claimReward sch ent userPayer mints bnb) = Inl DerivationError
    \<or> (\<exists>c rs es.
          fst (claimReward sch ent userPayer mints bnb) =
            Inr \<lparr>payerKey = publicKey userPayer, instructions = c # rs @ es\<rparr>
        \<and> length rs = length mints \<and> length es = length mints
        \<and> createClaimInstruction sch (publicKey userPayer) bnb (fst (randomBytes 32 ent)) = Inr c
        \<and> hd (data c) = 3
        \<and> take 32 (drop 2 (data c)) = fst (randomBytes 32 ent)
        \<and> (\<forall>i<length mints.
              registerNftInstruction sch (publicKey userPayer) (mints ! i) = Inr (rs ! i)
            \<and> data (rs ! i) = [2]
            \<and> claimInstruction sch (publicKey userPayer) (mints ! i) (fst (randomBytes 32 ent))
                = Inr (es ! i)
            \<and> hd (data (es ! i)) = 4
            \<and> pubkey (keys (es ! i) ! 4) = pubkey (keys c ! 1)))"
  proof (cases "fst (claimReward sch ent userPayer mints bnb)")
    case (Inl e)
    then consider "createClaimInstruction sch w bnb seed = Inl e"
      | "mapE (registerNftInstruction sch w) mints = Inl e"
      | "mapE (\<lambda>mint. claimInstruction sch w mint seed) mints = Inl e"
      unfolding unf by (auto simp: andThen_eq_Inl)
    then have "e = DerivationError"
    proof cases
      case 1
      then show ?thesis by (rule createClaimInstruction_error)
    next
      case 2
      from mapE_Inl [OF this] show ?thesis by (auto dest: registerNftInstruction_error)
    next
      case 3
      from mapE_Inl [OF this] show ?thesis by (auto dest: claimInstruction_error)
    qed
    with Inl show ?thesis by simp
  next
    case (Inr msg)
    then obtain c rs es where
      c: "createClaimInstruction sch w bnb seed = Inr c" and
      rs: "mapE (registerNftInstruction sch w) mints = Inr rs" and
      es: "mapE (\<lambda>mint. claimInstruction sch w mint seed) mints = Inr es" and
      msg: "msg = \<lparr>payerKey = w, instructions = c # rs @ es\<rparr>"
      unfolding unf by (auto simp: andThen_eq_Inr)
    from rs have rs_map: "map (registerNftInstruction sch w) mints = map Inr rs"
      by (simp add: mapE_Inr)
    from es have es_map: "map (\<lambda>mint. claimInstruction sch w mint seed) mints = map Inr es"
      by (simp add: mapE_Inr)
    have lr: "length rs = length mints" using rs_map by (metis length_map)
    have le: "length es = length mints" using es_map by (metis length_map)
    from createClaimInstruction_Inr [OF c] obtain claim_pda where
      cp: "findClaimPda sch w seed = Inr claim_pda" and
      ck: "pubkey (keys c ! 1) = fst claim_pda" and
      cd: "data c = [3, of_nat (snd claim_pda)] @ seed @ encode_utf8 (drop 2 bnb)"
      by blast
    have hd_c: "hd (data c) = 3" by (simp add: cd)
    have nonce_c: "take 32 (drop 2 (data c)) = seed" by (simp add: cd seed_len)
    have each: "registerNftInstruction sch w (mints ! i) = Inr (rs ! i)
            \<and> data (rs ! i) = [2]
            \<and> claimInstruction sch w (mints ! i) seed = Inr (es ! i)
            \<and> hd (data (es ! i)) = 4
            \<and> pubkey (keys (es ! i) ! 4) = pubkey (keys c ! 1)" if i: "i < length mints" for i
    proof -
      have "map (registerNftInstruction sch w) mints ! i = map Inr rs ! i"
        by (simp only: rs_map)
      then have r: "registerNftInstruction sch w (mints ! i) = Inr (rs ! i)"
        using i lr by simp
      have "map (\<lambda>mint. claimInstruction sch w mint seed) mints ! i = map Inr es ! i"
        by (simp only: es_map)
      then have e: "claimInstruction sch w (mints ! i) seed = Inr (es ! i)"
        using i le by simp
      from claimInstruction_Inr [OF e] cp ck
      have "hd (data (es ! i)) = 4" and "pubkey (keys (es ! i) ! 4) = pubkey (keys c ! 1)"
        by auto
      with r e registerNftInstruction_Inr [OF r] show ?thesis by simp
    qed
    have "\<exists>c rs es.
          fst (claimReward sch ent userPayer mints bnb) =
            Inr \<lparr>payerKey = w, instructions = c # rs @ es\<rparr>
        \<and> length rs = length mints \<and> length es = length mints
        \<and> createClaimInstruction sch w bnb seed = Inr c
        \<and> hd (data c) = 3
        \<and> take 32 (drop 2 (data c)) = seed
        \<and> (\<forall>i<length mints.
              registerNftInstruction sch w (mints ! i) = Inr (rs ! i)
            \<and> data (rs ! i) = [2]
            \<and> claimInstruction sch w (mints ! i) seed = Inr (es ! i)
            \<and> hd (data (es ! i)) = 4
            \<and> pubkey (keys (es ! i) ! 4) = pubkey (keys c ! 1))"
      using Inr msg lr le c hd_c nonce_c each
      by (intro exI [of _ c] exI [of _ rs] exI [of _ es]) simp
    then show ?thesis unfolding w_def seed_def by (rule disjI2)
  qed
qed

lemma sample_scheme_total:
  "findProgramAddressSync sample_scheme seeds pid \<noteq> Inl DerivationError"
  unfolding findProgramAddressSync_def
  by (simp add: bump_search_taken sample_scheme_def)

theorem claimReward_sequence_witness:
  "\<exists>c r1 r2 e1 e2.
     fst (claimReward sample_scheme sample_entropy sample_wallet two_mints bnbWallet) =
       Inr \<lparr>payerKey = publicKey sample_wallet, instructions = [c, r1, r2, e1, e2]\<rparr>
     \<and> hd (data c) = 3 \<and> data r1 = [2] \<and> data r2 = [2] \<and> hd (data e1) = 4 \<and> hd (data e2) = 4
     \<and> pubkey (keys e1 ! 4) = pubkey (keys c ! 1)
     \<and> pubkey (keys e2 ! 4) = pubkey (keys c ! 1)"
proof -
  let ?res = "fst (claimReward sample_scheme sample_entropy sample_wallet two_mints bnbWallet)"
  have tot: "\<forall>seeds pid. findProgramAddressSync sample_scheme seeds pid \<noteq> Inl DerivationError"
    by (simp add: sample_scheme_total)
  note inst = claimReward_sequence [of sample_scheme sample_entropy sample_wallet two_mints bnbWallet]
  from inst tot have ok: "?res \<noteq> Inl DerivationError" by blast
  with inst obtain c rs es where
    res: "?res = Inr \<lparr>payerKey = publicKey sample_wallet, instructions = c # rs @ es\<rparr>" and
    lr: "length rs = length two_mints" and le: "length es = length two_mints" and
    hc: "hd (data c) = 3" and
    each: "\<forall>i<length two_mints.
              registerNftInstruction sample_scheme (publicKey sample_wallet) (two_mints ! i)
                = Inr (rs ! i)
            \<and> data (rs ! i) = [2]
            \<and> claimInstruction sample_scheme (publicKey sample_wallet) (two_mints ! i)
                 (fst (randomBytes 32 sample_entropy)) = Inr (es ! i)
            \<and> hd (data (es ! i)) = 4
            \<and> pubkey (keys (es ! i) ! 4) = pubkey (keys c ! 1)"
    by blast
  have l2: "length two_mints = 2" by (simp add: two_mints_def)
  from lr l2 obtain r1 r2 where rs: "rs = [r1, r2]"
    by (cases rs; cases "tl rs"; cases "tl (tl rs)") auto
  from le l2 obtain e1 e2 where es: "es = [e1, e2]"
    by (cases es; cases "tl es"; cases "tl (tl es)") auto
  from each l2 have i0: "data (rs ! 0) = [2] \<and> hd (data (es ! 0)) = 4
      \<and> pubkey (keys (es ! 0) ! 4) = pubkey (keys c ! 1)" by simp
  from each l2 have i1: "data (rs ! 1) = [2] \<and> hd (data (es ! 1)) = 4
      \<and> pubkey (keys (es ! 1) ! 4) = pubkey (keys c ! 1)" by simp
  show ?thesis
    using res hc i0 i1 unfolding rs es
    by (intro exI [of _ c] exI [of _ r1] exI [of _ r2] exI [of _ e1] exI [of _ e2]) simp
qed

section \<open>Encoding and decoding\<close>

lemma list21:
  assumes "length xs = 21"
  obtains x0 x1 x2 x3 x4 x5 x6 x7 x8 x9 x10 x11 x12 x13 x14 x15 x16 x17 x18 x19 x20
  where "xs = [x0, x1, x2, x3, x4, x5, x6, x7, x8, x9, x10, x11, x12, x13, x14, x15, x16,
               x17, x18, x19, x20]"
  using assms by (auto simp: eval_nat_numeral length_Suc_conv)

lemma allocUnsafe_length: "length (allocUnsafe n junk) = n"
  by (simp add: allocUnsafe_def)

lemma setConfig_data:
  assumes "is_int32 v1" "is_int32 v2" "is_int32 v3" "is_int32 v4" "is_int32 v5"
    and "length buf = 21"
  shows "andThen (writeInt8 buf CONFIG 0) (\<lambda>d0.
         andThen (writeInt32LE d0 v1 1) (\<lambda>d1.
         andThen (writeInt32LE d1 v2 5) (\<lambda>d2.
         andThen (writeInt32LE d2 v3 9) (\<lambda>d3.
         andThen (writeInt32LE d3 v4 13) (\<lambda>d4.
         andThen (writeInt32LE d4 v5 17) f)))))
       = f (0 # le32 v1 @ le32 v2 @ le32 v3 @ le32 v4 @ le32 v5)"
proof -
  from assms(6) obtain x0 x1 x2 x3 x4 x5 x6 x7 x8 x9 x10 x11 x12 x13 x14 x15 x16 x17 x18 x19 x20
    where buf: "buf = [x0, x1, x2, x3, x4, x5, x6, x7, x8, x9, x10, x11, x12, x13, x14, x15, x16,
               x17, x18, x19, x20]"
    by (rule list21)
  show ?thesis
    using assms(1-5) unfolding buf
    by (simp add: writeInt8_def writeInt32LE_def CONFIG_def is_int32_def andThen_Inr le32_def)
qed

lemma sint_byte: "sint (word_of_int x :: byte) = (x + 128) mod 256 - 128"
  by (simp add: sint_sbintrunc' signed_take_bit_eq_take_bit_shift take_bit_eq_mod)

lemma uint_byte: "uint (word_of_int x :: byte) = x mod 256"
  by (simp add: uint_word_of_int take_bit_eq_mod)

lemma split4: fixes u :: int
  shows "u = u mod 256 + (u div 2 ^ 8) mod 256 * 2 ^ 8 + (u div 2 ^ 16) mod 256 * 2 ^ 16
           + (u div 2 ^ 24) * 2 ^ 24"
proof -
  define q1 where "q1 = u div 256"
  define q2 where "q2 = q1 div 256"
  define q3 where "q3 = q2 div 256"
  define r0 where "r0 = u mod 256"
  define r1 where "r1 = q1 mod 256"
  define r2 where "r2 = q2 mod 256"
  have a: "u = r0 + q1 * 256" unfolding r0_def q1_def by simp
  have b: "q1 = r1 + q2 * 256" unfolding r1_def q2_def by simp
  have c: "q2 = r2 + q3 * 256" unfolding r2_def q3_def by simp
  have d2: "u div 2 ^ 16 = q2" unfolding q2_def q1_def by (simp add: zdiv_zmult2_eq [symmetric])
  have d3: "u div 2 ^ 24 = q3" unfolding q3_def q2_def q1_def by (simp add: zdiv_zmult2_eq [symmetric])
  have d1: "u div 2 ^ 8 = q1" unfolding q1_def by simp
  have "u = r0 + r1 * 2 ^ 8 + r2 * 2 ^ 16 + q3 * 2 ^ 24"
    using a b c by simp
  then show ?thesis unfolding d1 d2 d3 r0_def[symmetric] r1_def[symmetric] r2_def[symmetric] .
qed

lemma signed_byte_low: fixes t :: int assumes "0 \<le> t" "t < 128"
  shows "(t + 128) mod 256 - 128 = t"
proof -
  have "(t + 128) mod 256 = t + 128" using assms by (intro mod_pos_pos_trivial) simp_all
  then show ?thesis by simp
qed

lemma signed_byte_high: fixes t :: int assumes "128 \<le> t" "t < 256"
  shows "(t + 128) mod 256 - 128 = t - 256"
proof -
  define a where "a = t - 128"
  have ta: "t + 128 = a + 256" by (simp add: a_def)
  have a: "0 \<le> a" "a < 256" using assms by (simp_all add: a_def)
  have "(a + 256) mod 256 = a mod 256" by (rule mod_add_self2)
  also have "a mod 256 = a" using a by (rule mod_pos_pos_trivial)
  finally have "(t + 128) mod 256 = a" by (simp only: ta)
  then show ?thesis by (simp add: a_def)
qed

lemma mod32_neg: fixes v :: int assumes "v < 0" "- (2 ^ 31) \<le> v"
  shows "v mod 2 ^ 32 = v + 2 ^ 32"
proof -
  have "(v + 2 ^ 32) mod 2 ^ 32 = v + 2 ^ 32"
    using assms by (intro mod_pos_pos_trivial) simp_all
  then show ?thesis by simp
qed

lemma int32_bytes_value:
  assumes "- (2 ^ 31) \<le> v" "v < 2 ^ 31"
  shows "uint (word_of_int v :: byte)
       + uint (word_of_int (v mod 2 ^ 32 div 2 ^ 8) :: byte) * 2 ^ 8
       + uint (word_of_int (v mod 2 ^ 32 div 2 ^ 16) :: byte) * 2 ^ 16
       + sint (word_of_int (v mod 2 ^ 32 div 2 ^ 24) :: byte) * 2 ^ 24 = v"
proof -
  define u where "u = v mod 2 ^ 32"
  define t where "t = u div 2 ^ 24"
  have m: "v mod 256 = u mod 256"
    unfolding u_def by (simp add: mod_mod_cancel)
  have s4: "u = u mod 256 + (u div 2 ^ 8) mod 256 * 2 ^ 8 + (u div 2 ^ 16) mod 256 * 2 ^ 16
      + t * 2 ^ 24"
    unfolding t_def by (rule split4)
  have lhs: "uint (word_of_int v :: byte)
       + uint (word_of_int (v mod 2 ^ 32 div 2 ^ 8) :: byte) * 2 ^ 8
       + uint (word_of_int (v mod 2 ^ 32 div 2 ^ 16) :: byte) * 2 ^ 16
       + sint (word_of_int (v mod 2 ^ 32 div 2 ^ 24) :: byte) * 2 ^ 24
     = u mod 256 + (u div 2 ^ 8) mod 256 * 2 ^ 8 + (u div 2 ^ 16) mod 256 * 2 ^ 16
       + ((t + 128) mod 256 - 128) * 2 ^ 24"
    by (simp only: sint_byte uint_byte m u_def [symmetric] t_def [symmetric])
  show ?thesis
  proof (cases "0 \<le> v")
    case True
    then have uv: "u = v" using assms by (simp add: u_def)
    have "0 \<le> t" "t < 128" using assms True unfolding t_def uv by simp_all
    then have "(t + 128) mod 256 - 128 = t" by (rule signed_byte_low)
    with lhs s4 uv show ?thesis by (simp only:)
  next
    case False
    then have neg: "v < 0" by simp
    have uv: "u = v + 2 ^ 32" unfolding u_def using neg assms(1) by (rule mod32_neg)
    have "128 \<le> t" "t < 256" using assms neg unfolding t_def uv by simp_all
    then have "(t + 128) mod 256 - 128 = t - 256" by (rule signed_byte_high)
    with lhs have "uint (word_of_int v :: byte)
       + uint (word_of_int (v mod 2 ^ 32 div 2 ^ 8) :: byte) * 2 ^ 8
       + uint (word_of_int (v mod 2 ^ 32 div 2 ^ 16) :: byte) * 2 ^ 16
       + sint (word_of_int (v mod 2 ^ 32 div 2 ^ 24) :: byte) * 2 ^ 24
     = u mod 256 + (u div 2 ^ 8) mod 256 * 2 ^ 8 + (u div 2 ^ 16) mod 256 * 2 ^ 16
       + (t - 256) * 2 ^ 24" by (simp only:)
    also have "\<dots> = u - 2 ^ 32" using s4 by (simp add: algebra_simps)
    also have "\<dots> = v" by (simp add: uv)
    finally show ?thesis .
  qed
qed

lemma readInt32LE_le32:
  assumes "is_int32 v" "offset = length pre"
  shows "readInt32LE (pre @ le32 v @ post) offset = Inr v"
proof -
  have v: "- (2 ^ 31) \<le> v" "v < 2 ^ 31" using assms(1) by (simp_all add: is_int32_def)
  show ?thesis
    unfolding readInt32LE_def assms(2)
    using int32_bytes_value [OF v] by (simp add: le32_def nth_append)
qed

lemma setConfigInstruction_data:
  assumes "is_int32 (args_claimable_from cfg)" "is_int32 (args_accumulated_reward cfg)"
    "is_int32 (args_initial_reward cfg)" "is_int32 (total_accumulation_period cfg)"
    "is_int32 (args_generation_duration cfg)"
    and "findConfigPda sch = Inr pda"
  shows "\<exists>ix. setConfigInstruction sch junk signer ck cfg = Inr ix
           \<and> data ix = 0 # le32 (args_claimable_from cfg) @ le32 (args_accumulated_reward cfg)
               @ le32 (args_initial_reward cfg) @ le32 (total_accumulation_period cfg)
               @ le32 (args_generation_duration cfg)"
proof -
  have len: "length (allocUnsafe (1 + 5 * 4) junk) = 21" by (simp add: allocUnsafe_length)
  note eq = setConfig_data [OF assms(1-5) len]
  show ?thesis
    unfolding setConfigInstruction_def
    by (simp only: eq assms(6) andThen_Inr) simp
qed

lemma unat_byte_of_nat: "unat (of_nat n :: byte) = n mod 256"
  by (simp add: unat_of_nat)

lemma char_of_byte_of_char: "char_of (unat (of_nat (of_char x) :: byte)) = x"
  by (simp only: unat_byte_of_nat of_char_mod_256 char_of_char)

lemma decode_encode_utf8:
  "map (\<lambda>b. char_of (unat b)) (map (\<lambda>c. of_nat (of_char c) :: byte) s) = s"
  by (induction s) (simp_all only: list.map char_of_byte_of_char)

lemma toString_encode:
  "toString_utf8 (pre @ encode_utf8 s) (length pre) = s"
proof -
  have "drop (length pre) (pre @ encode_utf8 s) = encode_utf8 s" by simp
  then show ?thesis
    unfolding toString_utf8_def by (simp only: encode_utf8_def decode_encode_utf8)
qed

lemma release_config_int32:
  "is_int32 (args_claimable_from release_config)"
  "is_int32 (args_accumulated_reward release_config)"
  "is_int32 (args_initial_reward release_config)"
  "is_int32 (total_accumulation_period release_config)"
  "is_int32 (args_generation_duration release_config)"
  by (simp_all add: release_config_def is_int32_def)

lemma sample_findConfigPda:
  "findConfigPda sample_scheme =
     Inr (PublicKey (candidate sample_scheme GAIMIN_PFP [Buffer_from ''config''] 255), 255)"
  by (simp add: findConfigPda_def findProgramAddressSync_def bump_search_taken sample_scheme_def)

lemma le32_length: "length (le32 v) = 4"
  by (simp add: le32_def)

lemma parseConfig_image:
  assumes "is_int32 v1" "is_int32 v2" "is_int32 v3" "is_int32 v4" "is_int32 v5"
    and "length (toBuffer a) = 32" "length (toBuffer c) = 32"
    and "connection acc =
      Some (toBuffer a @ toBuffer c @ le32 v1 @ le32 v2 @ le32 v3 @ le32 v4 @ le32 v5)"
  shows "parseConfig connection acc =
     Inr \<lparr>authority = a, creator = c, claimable_from = v1, accumulated_reward = v2,
          initial_reward = v3, accumulation_duration = v4, generation_duration = v5\<rparr>"
proof -
  define d where "d = toBuffer a @ toBuffer c @ le32 v1 @ le32 v2 @ le32 v3 @ le32 v4 @ le32 v5"
  have len: "length d = 84" by (simp add: d_def assms(6,7) le32_length)
  have r1: "readInt32LE d 64 = Inr v1"
    using readInt32LE_le32 [OF assms(1), of 64 "toBuffer a @ toBuffer c"
        "le32 v2 @ le32 v3 @ le32 v4 @ le32 v5"]
    by (simp add: d_def assms(6,7))
  have r2: "readInt32LE d 68 = Inr v2"
    using readInt32LE_le32 [OF assms(2), of 68 "toBuffer a @ toBuffer c @ le32 v1"
        "le32 v3 @ le32 v4 @ le32 v5"]
    by (simp add: d_def assms(6,7) le32_length)
  have r3: "readInt32LE d 72 = Inr v3"
    using readInt32LE_le32 [OF assms(3), of 72 "toBuffer a @ toBuffer c @ le32 v1 @ le32 v2"
        "le32 v4 @ le32 v5"]
    by (simp add: d_def assms(6,7) le32_length)
  have r4: "readInt32LE d 76 = Inr v4"
    using readInt32LE_le32 [OF assms(4), of 76
        "toBuffer a @ toBuffer c @ le32 v1 @ le32 v2 @ le32 v3" "le32 v5"]
    by (simp add: d_def assms(6,7) le32_length)
  have r5: "readInt32LE d 80 = Inr v5"
    using readInt32LE_le32 [OF assms(5), of 80
        "toBuffer a @ toBuffer c @ le32 v1 @ le32 v2 @ le32 v3 @ le32 v4" "[]"]
    by (simp add: d_def assms(6,7) le32_length)
  have s1: "slice d 0 32 = toBuffer a" by (simp add: slice_def d_def assms(6))
  have s2: "slice d 32 64 = toBuffer c" by (simp add: slice_def d_def assms(6,7))
  from assms(8) have c: "connection acc = Some d" by (simp add: d_def)
  show ?thesis
    unfolding parseConfig_eq [of connection acc d, OF c]
    by (simp add: len r1 r2 r3 r4 r5 s1 s2)
qed

lemma createClaimInstruction_data:
  assumes "createClaimInstruction sch wallet bnb seed = Inr cx" "length seed = 32"
  shows "drop 34 (data cx) = encode_utf8 (drop 2 bnb)"
proof -
  from createClaimInstruction_Inr [OF assms(1)] obtain claim_pda where
    "findClaimPda sch wallet seed = Inr claim_pda \<and> pubkey (keys cx ! 1) = fst claim_pda
     \<and> data cx = [3, of_nat (snd claim_pda)] @ seed @ encode_utf8 (drop 2 bnb)" ..
  then show ?thesis by (simp add: assms(2))
qed

text \<open>
  C2 (amended). The client has encoders for instruction payloads only, and a payload is
  not the account image its decoder reads. What holds: provided the config address
  derives, \<open>setConfigInstruction\<close> writes the opcode 0 and the five fields as 4-byte
  little-endian integers at payload offsets 1, 5, 9, 13 and 17, each read back unchanged
  by \<open>readInt32LE\<close> for every value of the signed 32-bit range; and \<open>parseConfig\<close>,
  on the account image made of the two 32-byte keys followed by those 20 bytes, returns
  the keys and the five values (\<open>total_accumulation_period\<close> as
  \<open>accumulation_duration\<close>). For the claim record, a wallet string of ASCII characters
  that begins with \<open>0x\<close> comes back unchanged from \<open>parseClaim\<close> when the string
  bytes of the \<open>createClaimInstruction\<close> payload stand at offset 40 of the account.
\<close>

theorem config_and_wallet_round_trip:
  assumes "is_int32 (args_claimable_from cfg)" "is_int32 (args_accumulated_reward cfg)"
    "is_int32 (args_initial_reward cfg)" "is_int32 (total_accumulation_period cfg)"
    "is_int32 (args_generation_duration cfg)"
    and "findConfigPda sch = Inr pda"
    and "length (toBuffer a) = 32" "length (toBuffer c) = 32"
  shows "(\<exists>ix. setConfigInstruction sch junk signer ck cfg = Inr ix
          \<and> length (data ix) = 21 \<and> data ix ! 0 = 0
          \<and> readInt32LE (data ix) 1 = Inr (args_claimable_from cfg)
          \<and> readInt32LE (data ix) 5 = Inr (args_accumulated_reward cfg)
          \<and> readInt32LE (data ix) 9 = Inr (args_initial_reward cfg)
          \<and> readInt32LE (data ix) 13 = Inr (total_accumulation_period cfg)
          \<and> readInt32LE (data ix) 17 = Inr (args_generation_duration cfg)
          \<and> parseConfig (account_at acc (toBuffer a @ toBuffer c @ drop 1 (data ix))) acc =
              Inr \<lparr>authority = a, creator = c,
                   claimable_from = args_claimable_from cfg,
                   accumulated_reward = args_accumulated_reward cfg,
                   initial_reward = args_initial_reward cfg,
                   accumulation_duration = total_accumulation_period cfg,
                   generation_duration = args_generation_duration cfg\<rparr>)
       \<and> (take 2 bnb = ''0x'' \<and> (\<forall>ch\<in>set bnb. of_char ch < (128 :: nat))
            \<and> length seed = 32 \<and> length header = 40
            \<and> createClaimInstruction sch wallet bnb seed = Inr cx \<longrightarrow>
          (\<exists>r. parseClaim (account_at acc (header @ drop 34 (data cx))) acc = Inr r
             \<and> bnb_chain_wallet_address r = bnb))"
proof (intro conjI impI)
  let ?v1 = "args_claimable_from cfg" and ?v2 = "args_accumulated_reward cfg"
    and ?v3 = "args_initial_reward cfg" and ?v4 = "total_accumulation_period cfg"
    and ?v5 = "args_generation_duration cfg"
  from setConfigInstruction_data [OF assms(1-6), of junk signer ck] obtain ix where
    ix: "setConfigInstruction sch junk signer ck cfg = Inr ix" and
    d: "data ix = 0 # le32 ?v1 @ le32 ?v2 @ le32 ?v3 @ le32 ?v4 @ le32 ?v5"
    by blast
  have len: "length (data ix) = 21" by (simp add: d le32_length)
  have op: "data ix ! 0 = 0" by (simp add: d)
  have r1: "readInt32LE (data ix) 1 = Inr ?v1"
    using readInt32LE_le32 [OF assms(1), of 1 "[0]" "le32 ?v2 @ le32 ?v3 @ le32 ?v4 @ le32 ?v5"]
    by (simp add: d)
  have r2: "readInt32LE (data ix) 5 = Inr ?v2"
    using readInt32LE_le32 [OF assms(2), of 5 "0 # le32 ?v1" "le32 ?v3 @ le32 ?v4 @ le32 ?v5"]
    by (simp add: d le32_length)
  have r3: "readInt32LE (data ix) 9 = Inr ?v3"
    using readInt32LE_le32 [OF assms(3), of 9 "0 # le32 ?v1 @ le32 ?v2" "le32 ?v4 @ le32 ?v5"]
    by (simp add: d le32_length)
  have r4: "readInt32LE (data ix) 13 = Inr ?v4"
    using readInt32LE_le32 [OF assms(4), of 13 "0 # le32 ?v1 @ le32 ?v2 @ le32 ?v3" "le32 ?v5"]
    by (simp add: d le32_length)
  have r5: "readInt32LE (data ix) 17 = Inr ?v5"
    using readInt32LE_le32 [OF assms(5), of 17
        "0 # le32 ?v1 @ le32 ?v2 @ le32 ?v3 @ le32 ?v4" "[]"]
    by (simp add: d le32_length)
  have img: "account_at acc (toBuffer a @ toBuffer c @ drop 1 (data ix)) acc =
      Some (toBuffer a @ toBuffer c @ le32 ?v1 @ le32 ?v2 @ le32 ?v3 @ le32 ?v4 @ le32 ?v5)"
    by (simp add: account_at_same d)
  note pc = parseConfig_image [where connection =
      "account_at acc (toBuffer a @ toBuffer c @ drop 1 (data ix))" and acc = acc,
      OF assms(1-5) assms(7,8) img]
  show "\<exists>ix. setConfigInstruction sch junk signer ck cfg = Inr ix
          \<and> length (data ix) = 21 \<and> data ix ! 0 = 0
          \<and> readInt32LE (data ix) 1 = Inr (args_claimable_from cfg)
          \<and> readInt32LE (data ix) 5 = Inr (args_accumulated_reward cfg)
          \<and> readInt32LE (data ix) 9 = Inr (args_initial_reward cfg)
          \<and> readInt32LE (data ix) 13 = Inr (total_accumulation_period cfg)
          \<and> readInt32LE (data ix) 17 = Inr (args_generation_duration cfg)
          \<and> parseConfig (account_at acc (toBuffer a @ toBuffer c @ drop 1 (data ix))) acc =
              Inr \<lparr>authority = a, creator = c,
                   claimable_from = args_claimable_from cfg,
                   accumulated_reward = args_accumulated_reward cfg,
                   initial_reward = args_initial_reward cfg,
                   accumulation_duration = total_accumulation_period cfg,
                   generation_duration = args_generation_duration cfg\<rparr>"
    by (intro exI [of _ ix] conjI ix len op r1 r2 r3 r4 r5 pc)
next
  assume h: "take 2 bnb = ''0x'' \<and> (\<forall>ch\<in>set bnb. of_char ch < (128 :: nat))
            \<and> length seed = 32 \<and> length header = 40
            \<and> createClaimInstruction sch wallet bnb seed = Inr cx"
  then have t: "take 2 bnb = ''0x''" and sl: "length seed = 32" and hl: "length header = 40"
    and cx: "createClaimInstruction sch wallet bnb seed = Inr cx" by simp_all
  have dd: "drop 34 (data cx) = encode_utf8 (drop 2 bnb)"
    by (rule createClaimInstruction_data [OF cx sl])
  have con: "account_at acc (header @ drop 34 (data cx)) acc
      = Some (header @ encode_utf8 (drop 2 bnb))"
    by (simp add: account_at_same dd)
  have "toString_utf8 (header @ encode_utf8 (drop 2 bnb)) 40 = drop 2 bnb"
    using toString_encode [of header "drop 2 bnb"] by (simp add: hl)
  moreover have "''0x'' @ drop 2 bnb = bnb"
    using t append_take_drop_id [of 2 bnb] by (simp only:)
  ultimately have w: "''0x'' @ toString_utf8 (header @ encode_utf8 (drop 2 bnb)) 40 = bnb"
    by (simp only:)
  show "\<exists>r. parseClaim (account_at acc (header @ drop 34 (data cx))) acc = Inr r
             \<and> bnb_chain_wallet_address r = bnb"
    unfolding parseClaim_eq [of "account_at acc (header @ drop 34 (data cx))" acc
        "header @ encode_utf8 (drop 2 bnb)", OF con]
    using w by (simp add: hl)
qed

text \<open>
  The payload that \<open>setConfigInstruction\<close> builds for the release configuration is not
  decoded by \<open>parseConfig\<close>: it has 21 bytes, and the decoder asks for two 32-byte keys
  first.
\<close>

theorem config_payload_counterexample:
  "parseConfig
     (account_at GAIMIN_PFP
        (data (projr (setConfigInstruction sample_scheme [] (publicKey sample_wallet)
                        (publicKey sample_wallet) release_config))))
     GAIMIN_PFP = Inl InvalidPublicKeyInput"
proof -
  from setConfigInstruction_data [OF release_config_int32 sample_findConfigPda,
      of "[]" "publicKey sample_wallet" "publicKey sample_wallet"]
  obtain ix where
    ix: "setConfigInstruction sample_scheme [] (publicKey sample_wallet)
           (publicKey sample_wallet) release_config = Inr ix" and
    d: "data ix = 0 # le32 (args_claimable_from release_config)
          @ le32 (args_accumulated_reward release_config)
          @ le32 (args_initial_reward release_config)
          @ le32 (total_accumulation_period release_config)
          @ le32 (args_generation_duration release_config)"
    by blast
  have len: "length (data ix) = 21" by (simp add: d le32_length)
  have "parseConfig (account_at GAIMIN_PFP (data ix)) GAIMIN_PFP = Inl InvalidPublicKeyInput"
    by (simp add: parseConfig_eq [of _ _ "data ix"] account_at_same len)
  then show ?thesis by (simp add: ix)
qed

theorem config_and_wallet_round_trip_witness:
  "(\<exists>ix. setConfigInstruction sample_scheme [] (publicKey sample_wallet)
            (publicKey sample_wallet) release_config = Inr ix
        \<and> parseConfig
            (account_at GAIMIN_PFP
               (toBuffer (publicKey sample_wallet) @ toBuffer (publicKey sample_wallet)
                @ drop 1 (data ix)))
            GAIMIN_PFP =
          Inr \<lparr>authority = publicKey sample_wallet, creator = publicKey sample_wallet,
               claimable_from = 1711447200, accumulated_reward = 3282800,
               initial_reward = 820700, accumulation_duration = 25920000,
               generation_duration = 3600\<rparr>)
   \<and> (\<exists>cx r. createClaimInstruction sample_scheme (publicKey sample_wallet) bnbWallet
              (replicate 32 9) = Inr cx
        \<and> parseClaim (account_at GAIMIN_PFP (replicate 40 0 @ drop 34 (data cx))) GAIMIN_PFP
            = Inr r
        \<and> bnb_chain_wallet_address r = bnbWallet)"
proof -
  let ?k = "publicKey sample_wallet"
  have k: "length (toBuffer ?k) = 32" by (simp add: sample_wallet_def)
  obtain cx where cx: "createClaimInstruction sample_scheme ?k bnbWallet (replicate 32 9) = Inr cx"
    using builders_total(1) [of sample_scheme ?k bnbWallet "replicate 32 9"] sample_scheme_total
    by (cases "createClaimInstruction sample_scheme ?k bnbWallet (replicate 32 9)") auto
  have pre: "take 2 bnbWallet = ''0x'' \<and> (\<forall>ch\<in>set bnbWallet. of_char ch < (128 :: nat))
      \<and> length (replicate 32 (9 :: byte)) = 32 \<and> length (replicate 40 (0 :: byte)) = 40
      \<and> createClaimInstruction sample_scheme ?k bnbWallet (replicate 32 9) = Inr cx"
    using cx by (simp add: bnbWallet_def)
  note inst = config_and_wallet_round_trip [OF release_config_int32 sample_findConfigPda k k,
      of "[]" ?k ?k GAIMIN_PFP bnbWallet "replicate 32 9" "replicate 40 0" ?k cx]
  from inst have a: "\<exists>ix. setConfigInstruction sample_scheme [] ?k ?k release_config = Inr ix
        \<and> parseConfig (account_at GAIMIN_PFP (toBuffer ?k @ toBuffer ?k @ drop 1 (data ix)))
            GAIMIN_PFP =
          Inr \<lparr>authority = ?k, creator = ?k,
               claimable_from = 1711447200, accumulated_reward = 3282800,
               initial_reward = 820700, accumulation_duration = 25920000,
               generation_duration = 3600\<rparr>"
    by (auto simp: release_config_def)
  from inst pre have "\<exists>r. parseClaim (account_at GAIMIN_PFP (replicate 40 0 @ drop 34 (data cx)))
         GAIMIN_PFP = Inr r \<and> bnb_chain_wallet_address r = bnbWallet"
    by blast
  with cx have b: "\<exists>cx r. createClaimInstruction sample_scheme ?k bnbWallet (replicate 32 9) = Inr cx
        \<and> parseClaim (account_at GAIMIN_PFP (replicate 40 0 @ drop 34 (data cx))) GAIMIN_PFP
            = Inr r
        \<and> bnb_chain_wallet_address r = bnbWallet"
    by blast
  from a b show ?thesis by (rule conjI)
qed

section \<open>The two config layouts\<close>

lemma legacy_parseConfig_eq:
  assumes "connection acc = Some d"
  shows "legacy_parseConfig acc connection =
    (if length d < 56 then Inl RangeError
     else Inr (Some \<lparr>legacy_authority = bs58_encode (slice d 0 32),
                     legacy_claimable_from = new_Date_of_seconds (projr (readBigInt64LE d 32)),
                     total_reward = projr (readDoubleLE d 40),
                     initial_reward_frac = projr (readFloatLE d 48),
                     reward_period_sec = projr (readInt32LE d 52)\<rparr>))"
  using assms
  by (auto simp add: legacy_parseConfig_def andThen_Inr andThen_Inl readBigInt64LE_def
      readDoubleLE_def readFloatLE_def readInt32LE_def)

lemma release_account_length: "length release_account = 84"
  by (simp add: release_account_def)

lemma release_account_primary:
  "parseConfig (account_at acc release_account) acc =
     Inr \<lparr>authority = PublicKey (replicate 32 7), creator = PublicKey (replicate 32 1),
          claimable_from = 1711447200, accumulated_reward = 3282800, initial_reward = 820700,
          accumulation_duration = 25920000, generation_duration = 3600\<rparr>"
  by (simp add: parseConfig_eq [of _ _ release_account] account_at_same release_account_length)
    (simp add: release_account_def readInt32LE_def slice_def nth_append)

lemma release_account_legacy:
  "legacy_parseConfig acc (account_at acc release_account) =
     Inr (Some \<lparr>legacy_authority = bs58_encode (replicate 32 7),
                legacy_claimable_from = InvalidDate,
                total_reward = 72340172838076673, initial_reward_frac = 16843009,
                reward_period_sec = 16843009\<rparr>)"
  by (simp add: legacy_parseConfig_eq [of _ _ release_account] account_at_same
      release_account_length)
    (simp add: release_account_def readInt32LE_def readBigInt64LE_def readDoubleLE_def
      readFloatLE_def slice_def nth_append eval_nat_numeral new_Date_of_seconds_def)

lemma legacy_ignores_byte_80:
  "legacy_parseConfig acc (account_at acc (release_account[80 := 0]))
     = legacy_parseConfig acc (account_at acc release_account)"
  by (simp add: legacy_parseConfig_eq [of _ _ release_account]
      legacy_parseConfig_eq [of _ _ "release_account[80 := 0]"] account_at_same
      release_account_length)
    (simp add: release_account_def readInt32LE_def readBigInt64LE_def readDoubleLE_def
      readFloatLE_def slice_def nth_append eval_nat_numeral list_update_append)

lemma primary_reads_byte_80:
  "parseConfig (account_at acc (release_account[80 := 0])) acc =
     Inr \<lparr>authority = PublicKey (replicate 32 7), creator = PublicKey (replicate 32 1),
          claimable_from = 1711447200, accumulated_reward = 3282800, initial_reward = 820700,
          accumulation_duration = 25920000, generation_duration = 3584\<rparr>"
  by (simp add: parseConfig_eq [of _ _ "release_account[80 := 0]"] account_at_same
      release_account_length)
    (simp add: release_account_def readInt32LE_def slice_def nth_append list_update_append)

text \<open>
  C8. The legacy decoder and the primary decoder of the config account read different
  layouts. On any buffer that both decode, the legacy one takes \<open>claimable_from\<close> from
  the 8-byte integer at offset 32, a double at 40, a float at 48 and a 4-byte integer at
  52, while the primary one takes two 32-byte addresses and then five 4-byte
  little-endian integers at offsets 64, 68, 72, 76 and 80. They are not the same function
  up to naming: on the account of the release configuration they return different field
  values, and changing byte 80 of it changes the primary record and leaves the legacy
  record as it was.
\<close>

theorem config_layouts_differ:
  "(connection acc = Some d \<and> parseConfig connection acc = Inr p
      \<and> legacy_parseConfig acc connection = Inr (Some l) \<longrightarrow>
        authority p = PublicKey (slice d 0 32) \<and> creator p = PublicKey (slice d 32 64)
      \<and> readInt32LE d 64 = Inr (claimable_from p)
      \<and> readInt32LE d 68 = Inr (accumulated_reward p)
      \<and> readInt32LE d 72 = Inr (initial_reward p)
      \<and> readInt32LE d 76 = Inr (accumulation_duration p)
      \<and> readInt32LE d 80 = Inr (generation_duration p)
      \<and> legacy_authority l = bs58_encode (slice d 0 32)
      \<and> (\<exists>s. readBigInt64LE d 32 = Inr s \<and> legacy_claimable_from l = new_Date_of_seconds s)
      \<and> readDoubleLE d 40 = Inr (total_reward l)
      \<and> readFloatLE d 48 = Inr (initial_reward_frac l)
      \<and> readInt32LE d 52 = Inr (reward_period_sec l))
   \<and> (\<exists>p l. parseConfig (account_at acc' release_account) acc' = Inr p
          \<and> legacy_parseConfig acc' (account_at acc' release_account) = Inr (Some l)
          \<and> claimable_from p = 1711447200 \<and> legacy_claimable_from l = InvalidDate
          \<and> accumulation_duration p = 25920000 \<and> reward_period_sec l = 16843009)
   \<and> legacy_parseConfig acc' (account_at acc' (release_account[80 := 0]))
       = legacy_parseConfig acc' (account_at acc' release_account)
   \<and> parseConfig (account_at acc' (release_account[80 := 0])) acc'
       \<noteq> parseConfig (account_at acc' release_account) acc'"
proof (intro conjI impI)
  assume h: "connection acc = Some d \<and> parseConfig connection acc = Inr p
      \<and> legacy_parseConfig acc connection = Inr (Some l)"
  then have d: "connection acc = Some d" and p: "parseConfig connection acc = Inr p"
    and l: "legacy_parseConfig acc connection = Inr (Some l)" by simp_all
  from p have len: "84 \<le> length d" and
    pv: "p = \<lparr>authority = PublicKey (slice d 0 32), creator = PublicKey (slice d 32 64),
               claimable_from = projr (readInt32LE d 64),
               accumulated_reward = projr (readInt32LE d 68),
               initial_reward = projr (readInt32LE d 72),
               accumulation_duration = projr (readInt32LE d 76),
               generation_duration = projr (readInt32LE d 80)\<rparr>"
    unfolding parseConfig_eq [of connection acc d, OF d] by (auto split: if_splits)
  from l len have
    lv: "l = \<lparr>legacy_authority = bs58_encode (slice d 0 32),
               legacy_claimable_from = new_Date_of_seconds (projr (readBigInt64LE d 32)),
               total_reward = projr (readDoubleLE d 40),
               initial_reward_frac = projr (readFloatLE d 48),
               reward_period_sec = projr (readInt32LE d 52)\<rparr>"
    unfolding legacy_parseConfig_eq [of connection acc d, OF d] by (auto split: if_splits)
  show "authority p = PublicKey (slice d 0 32)" and "creator p = PublicKey (slice d 32 64)"
    by (simp_all add: pv)
  show "readInt32LE d 64 = Inr (claimable_from p)"
    and "readInt32LE d 68 = Inr (accumulated_reward p)"
    and "readInt32LE d 72 = Inr (initial_reward p)"
    and "readInt32LE d 76 = Inr (accumulation_duration p)"
    and "readInt32LE d 80 = Inr (generation_duration p)"
    using len by (simp_all add: pv readInt32LE_def)
  show "legacy_authority l = bs58_encode (slice d 0 32)" by (simp add: lv)
  show "\<exists>s. readBigInt64LE d 32 = Inr s \<and> legacy_claimable_from l = new_Date_of_seconds s"
    using len by (simp add: lv readBigInt64LE_def)
  show "readDoubleLE d 40 = Inr (total_reward l)"
    and "readFloatLE d 48 = Inr (initial_reward_frac l)"
    and "readInt32LE d 52 = Inr (reward_period_sec l)"
    using len by (simp_all add: lv readDoubleLE_def readFloatLE_def readInt32LE_def)
next
  show "\<exists>p l. parseConfig (account_at acc' release_account) acc' = Inr p
          \<and> legacy_parseConfig acc' (account_at acc' release_account) = Inr (Some l)
          \<and> claimable_from p = 1711447200 \<and> legacy_claimable_from l = InvalidDate
          \<and> accumulation_duration p = 25920000 \<and> reward_period_sec l = 16843009"
    by (simp add: release_account_primary release_account_legacy)
  show "legacy_parseConfig acc' (account_at acc' (release_account[80 := 0]))
       = legacy_parseConfig acc' (account_at acc' release_account)"
    by (rule legacy_ignores_byte_80)
  show "parseConfig (account_at acc' (release_account[80 := 0])) acc'
       \<noteq> parseConfig (account_at acc' release_account) acc'"
    by (simp add: release_account_primary primary_reads_byte_80)
qed

theorem config_layouts_differ_witness:
  "readInt32LE release_account 64 = Inr 1711447200
   \<and> readInt32LE release_account 76 = Inr 25920000
   \<and> readInt32LE release_account 52 = Inr 16843009
   \<and> readDoubleLE release_account 40 = Inr 72340172838076673"
proof -
  let ?p = "\<lparr>authority = PublicKey (replicate 32 7), creator = PublicKey (replicate 32 1),
          claimable_from = 1711447200, accumulated_reward = 3282800, initial_reward = 820700,
          accumulation_duration = 25920000, generation_duration = 3600\<rparr>"
  let ?l = "\<lparr>legacy_authority = bs58_encode (replicate 32 7),
                legacy_claimable_from = InvalidDate,
                total_reward = 72340172838076673, initial_reward_frac = 16843009,
                reward_period_sec = 16843009\<rparr>"
  have "account_at GAIMIN_PFP release_account GAIMIN_PFP = Some release_account
      \<and> parseConfig (account_at GAIMIN_PFP release_account) GAIMIN_PFP = Inr ?p
      \<and> legacy_parseConfig GAIMIN_PFP (account_at GAIMIN_PFP release_account) = Inr (Some ?l)"
    by (simp add: account_at_same release_account_primary release_account_legacy)
  with config_layouts_differ [of "account_at GAIMIN_PFP release_account" GAIMIN_PFP
      release_account ?p ?l GAIMIN_PFP]
  show ?thesis by simp
qed

end
